theory Spec2Isabelle
  imports Main "HOL-Library.Char_ord" "HOL-Library.List_Lexorder"
begin

section \<open>Python values and the JSON text form of cache entries\<close>

text \<open>
  The service keeps its cache entries as JSON text: every entry is written with
  \<^verbatim>\<open>json.dumps(doc, sort_keys=True)\<close> and read back with \<^verbatim>\<open>json.loads(entry)\<close>.
  Python values are modelled by \<open>pyval\<close>: strings, unbounded integers, lists, dictionaries
  (association lists in insertion order, keys being strings) and BSON object ids, which
  carry their 24-digit lower-case hexadecimal form. A \<open>string\<close> is a list of code points
  below 256.
\<close>

datatype pyval =
    PStr string
  | PInt int
  | PList "pyval list"
  | PDict "(string \<times> pyval) list"
  | POid string

subsection \<open>The encoder\<close>

text \<open>
  \<^verbatim>\<open>json.dumps\<close> with its defaults and \<^verbatim>\<open>sort_keys=True\<close>: strings go between double
  quotes, with the quote, the backslash and the control characters escaped and every code
  point outside the printable ASCII range written as \<^verbatim>\<open>\u00XX\<close> in lower-case hexadecimal;
  integers are written in decimal; the items of a list and of a dictionary are separated by
  a comma and a space, key and value by a colon and a space; the items of a dictionary
  are sorted by key, keys being compared as Python compares strings, code point by code
  point. \<open>hexchar\<close> is used below 16 only.
\<close>

definition backslash :: char where "backslash = CHR 0x5C"
definition dquote :: char where "dquote = CHR 0x22"

definition hexchar :: "nat \<Rightarrow> char" where
  "hexchar n = ''0123456789abcdef'' ! n"

definition escape_char :: "char \<Rightarrow> string" where
  "escape_char c =
     (if c = dquote then [backslash, dquote]
      else if c = backslash then [backslash, backslash]
      else if c = CHR 0x0A then [backslash, CHR ''n'']
      else if c = CHR 0x0D then [backslash, CHR ''r'']
      else if c = CHR 0x09 then [backslash, CHR ''t'']
      else if c = CHR 0x08 then [backslash, CHR ''b'']
      else if c = CHR 0x0C then [backslash, CHR ''f'']
      else if 32 \<le> (of_char c :: nat) \<and> (of_char c :: nat) \<le> 126 then [c]
      else [backslash, CHR ''u'', CHR ''0'', CHR ''0'',
            hexchar ((of_char c :: nat) div 16), hexchar ((of_char c :: nat) mod 16)])"

definition encode_basestring_ascii :: "string \<Rightarrow> string" where
  "encode_basestring_ascii s = dquote # concat (map escape_char s) @ [dquote]"

fun digits :: "nat \<Rightarrow> string" where
  "digits n = (if n < 10 then [char_of (48 + n)] else digits (n div 10) @ [char_of (48 + n mod 10)])"

declare digits.simps [simp del]

definition str_int :: "int \<Rightarrow> string" where
  "str_int i = (if i < 0 then CHR ''-'' # digits (nat (- i)) else digits (nat i))"

fun join :: "string \<Rightarrow> string list \<Rightarrow> string" where
  "join sep [] = []"
| "join sep [x] = x"
| "join sep (x # y # ys) = x @ sep @ join sep (y # ys)"

fun json_encode :: "pyval \<Rightarrow> string" where
  "json_encode (PStr s) = encode_basestring_ascii s"
| "json_encode (PInt i) = str_int i"
| "json_encode (PList vs) = ''['' @ join '', '' (map json_encode vs) @ '']''"
| "json_encode (PDict kvs) =
     ''{'' @ join '', '' (map (\<lambda>(k, e). encode_basestring_ascii k @ '': '' @ e)
                            (sort_key fst (map (\<lambda>(k, v). (k, json_encode v)) kvs))) @ ''}''"
| "json_encode (POid h) = []"

text \<open>An object id has no JSON form: \<open>json_dumps\<close> below raises before \<open>json_encode\<close>
  is asked for one.\<close>

subsection \<open>The decoder\<close>

text \<open>
  \<^verbatim>\<open>json.loads\<close> as a recursive-descent scanner. \<open>scanstring\<close> reads a string after its
  opening quote and returns it with the rest of the text; it refuses raw control
  characters, as the strict mode does. A number starts with an optional minus sign and is
  \<^verbatim>\<open>0\<close> or a digit sequence without a leading zero. The scanners of values, list
  elements and dictionary items call each other and take a bound on the depth of their
  calls; \<open>json_decode\<close> starts them with the length of the text plus one. A key that
  occurs twice keeps its first position and takes the later value.
\<close>

definition is_ws :: "char \<Rightarrow> bool" where
  "is_ws c = (c = CHR '' '' \<or> c = CHR 0x09 \<or> c = CHR 0x0A \<or> c = CHR 0x0D)"

definition skip_ws :: "string \<Rightarrow> string" where
  "skip_ws s = dropWhile is_ws s"

definition is_digit :: "char \<Rightarrow> bool" where
  "is_digit c = (48 \<le> (of_char c :: nat) \<and> (of_char c :: nat) \<le> 57)"

definition hexval :: "char \<Rightarrow> nat option" where
  "hexval c =
     (let n = (of_char c :: nat) in
      if 48 \<le> n \<and> n \<le> 57 then Some (n - 48)
      else if 97 \<le> n \<and> n \<le> 102 then Some (n - 87)
      else if 65 \<le> n \<and> n \<le> 70 then Some (n - 55)
      else None)"

definition unescape :: "char \<Rightarrow> char option" where
  "unescape e =
     (if e = dquote then Some dquote
      else if e = backslash then Some backslash
      else if e = CHR ''/'' then Some (CHR ''/'')
      else if e = CHR ''b'' then Some (CHR 0x08)
      else if e = CHR ''f'' then Some (CHR 0x0C)
      else if e = CHR ''n'' then Some (CHR 0x0A)
      else if e = CHR ''r'' then Some (CHR 0x0D)
      else if e = CHR ''t'' then Some (CHR 0x09)
      else None)"

definition hex4 :: "char \<Rightarrow> char \<Rightarrow> char \<Rightarrow> char \<Rightarrow> char option" where
  "hex4 a b c d =
     (case (hexval a, hexval b, hexval c, hexval d) of
        (Some x, Some y, Some z, Some w) \<Rightarrow>
          (if x = 0 \<and> y = 0 then Some (char_of (16 * z + w)) else None)
      | _ \<Rightarrow> None)"

fun scanstring :: "string \<Rightarrow> (string \<times> string) option" where
  "scanstring [] = None"
| "scanstring (c # cs) =
     (if c = dquote then Some ([], cs)
      else if c = backslash then
        (case cs of
           [] \<Rightarrow> None
         | e # r \<Rightarrow>
             (if e = CHR ''u'' then
                (case r of
                   a # b # x # y # r' \<Rightarrow>
                     (case hex4 a b x y of
                        None \<Rightarrow> None
                      | Some u \<Rightarrow> map_option (apfst ((#) u)) (scanstring r'))
                 | _ \<Rightarrow> None)
              else
                (case unescape e of
                   None \<Rightarrow> None
                 | Some u \<Rightarrow> map_option (apfst ((#) u)) (scanstring r))))
      else if (of_char c :: nat) < 32 then None
      else map_option (apfst ((#) c)) (scanstring cs))"

definition nat_of_digits :: "string \<Rightarrow> nat" where
  "nat_of_digits ds = foldl (\<lambda>a c. 10 * a + ((of_char c :: nat) - 48)) 0 ds"

definition scan_digits :: "string \<Rightarrow> (nat \<times> string) option" where
  "scan_digits s =
     (case s of
        [] \<Rightarrow> None
      | c # cs \<Rightarrow>
          if \<not> is_digit c then None
          else
            let (ds, r) = (if c = CHR ''0'' then ([c], cs)
                           else (takeWhile is_digit s, dropWhile is_digit s))
            in (case r of
                  [] \<Rightarrow> Some (nat_of_digits ds, r)
                | d # _ \<Rightarrow>
                    if d = CHR ''.'' \<or> d = CHR ''e'' \<or> d = CHR ''E'' then None
                    else Some (nat_of_digits ds, r)))"

definition scan_int :: "string \<Rightarrow> (int \<times> string) option" where
  "scan_int s =
     (case s of
        [] \<Rightarrow> None
      | c # cs \<Rightarrow>
          if c = CHR ''-'' then map_option (apfst (\<lambda>n. - int n)) (scan_digits cs)
          else map_option (apfst int) (scan_digits s))"

fun dict_set :: "(string \<times> pyval) list \<Rightarrow> string \<Rightarrow> pyval \<Rightarrow> (string \<times> pyval) list" where
  "dict_set [] k v = [(k, v)]"
| "dict_set ((k', v') # d) k v = (if k' = k then (k, v) # d else (k', v') # dict_set d k v)"

definition dict_of_pairs :: "(string \<times> pyval) list \<Rightarrow> (string \<times> pyval) list" where
  "dict_of_pairs ps = foldl (\<lambda>d (k, v). dict_set d k v) [] ps"

fun scan_value :: "nat \<Rightarrow> string \<Rightarrow> (pyval \<times> string) option"
  and scan_array :: "nat \<Rightarrow> string \<Rightarrow> (pyval list \<times> string) option"
  and scan_object :: "nat \<Rightarrow> string \<Rightarrow> ((string \<times> pyval) list \<times> string) option"
where
  "scan_value 0 s = None"
| "scan_value (Suc n) s =
     (case s of
        [] \<Rightarrow> None
      | c # cs \<Rightarrow>
          if c = dquote then map_option (apfst PStr) (scanstring cs)
          else if c = CHR ''['' then
            (case skip_ws cs of
               [] \<Rightarrow> None
             | d # r \<Rightarrow>
                 if d = CHR '']'' then Some (PList [], r)
                 else map_option (apfst PList) (scan_array n (d # r)))
          else if c = CHR ''{'' then
            (case skip_ws cs of
               [] \<Rightarrow> None
             | d # r \<Rightarrow>
                 if d = CHR ''}'' then Some (PDict [], r)
                 else map_option (apfst (\<lambda>ps. PDict (dict_of_pairs ps))) (scan_object n (d # r)))
          else map_option (apfst PInt) (scan_int s))"
| "scan_array 0 s = None"
| "scan_array (Suc n) s =
     (case scan_value n s of
        None \<Rightarrow> None
      | Some (v, r) \<Rightarrow>
          (case skip_ws r of
             [] \<Rightarrow> None
           | d # r' \<Rightarrow>
               if d = CHR '']'' then Some ([v], r')
               else if d = CHR '','' then
                 map_option (apfst ((#) v)) (scan_array n (skip_ws r'))
               else None))"
| "scan_object 0 s = None"
| "scan_object (Suc n) s =
     (case s of
        [] \<Rightarrow> None
      | q # cs \<Rightarrow>
          if q \<noteq> dquote then None
          else
            (case scanstring cs of
               None \<Rightarrow> None
             | Some (k, r) \<Rightarrow>
                 (case skip_ws r of
                    [] \<Rightarrow> None
                  | col # r1 \<Rightarrow>
                      if col \<noteq> CHR '':'' then None
                      else
                        (case scan_value n (skip_ws r1) of
                           None \<Rightarrow> None
                         | Some (v, r2) \<Rightarrow>
                             (case skip_ws r2 of
                                [] \<Rightarrow> None
                              | d # r3 \<Rightarrow>
                                  if d = CHR ''}'' then Some ([(k, v)], r3)
                                  else if d = CHR '','' then
                                    map_option (apfst ((#) (k, v))) (scan_object n (skip_ws r3))
                                  else None)))))"

definition json_decode :: "string \<Rightarrow> pyval option" where
  "json_decode s =
     (case scan_value (Suc (length s)) (skip_ws s) of
        None \<Rightarrow> None
      | Some (v, r) \<Rightarrow> if skip_ws r = [] then Some v else None)"

text \<open>
  \<^verbatim>\<open>json.dumps\<close> raises \<open>TypeError\<close> on a value that holds an object id anywhere;
  \<^verbatim>\<open>json.loads\<close> raises \<open>JSONDecodeError\<close> on malformed text. The decoder covers the
  JSON this service writes (objects, arrays, strings, integers, with any white space);
  text with \<^verbatim>\<open>null\<close>, booleans, fractions, exponents or code points above 255 is
  outside the model and is reported as a decoding error as well.
\<close>

datatype error =
    HTTPException nat string
  | InvalidId
  | JSONDecodeError
  | AttributeError
  | TypeError
  | OverflowError

fun serializable :: "pyval \<Rightarrow> bool" where
  "serializable (PStr s) = True"
| "serializable (PInt i) = True"
| "serializable (PList vs) = list_all serializable vs"
| "serializable (PDict kvs) = list_all (\<lambda>(k, v). serializable v) kvs"
| "serializable (POid h) = False"

definition json_dumps :: "pyval \<Rightarrow> error + string" where
  "json_dumps v = (if serializable v then Inr (json_encode v) else Inl TypeError)"

definition json_loads :: "string \<Rightarrow> error + pyval" where
  "json_loads s = (case json_decode s of None \<Rightarrow> Inl JSONDecodeError | Some v \<Rightarrow> Inr v)"

text \<open>\<^verbatim>\<open>d.get(k)\<close>: the value under \<open>k\<close>, \<open>None\<close> when the key is missing; a value that
  is not a dictionary has no \<^verbatim>\<open>get\<close>.\<close>

definition py_get :: "pyval \<Rightarrow> string \<Rightarrow> error + pyval option" where
  "py_get d k = (case d of PDict kvs \<Rightarrow> Inr (map_of kvs k) | _ \<Rightarrow> Inl AttributeError)"

text \<open>
  Python compares dictionaries without regard to the order of their keys: two dictionaries
  are equal when they have the same number of keys and every key of the first is a key of
  the second with an equal value. Lists are equal element by element.
\<close>

fun py_eq :: "pyval \<Rightarrow> pyval \<Rightarrow> bool" where
  "py_eq (PStr a) y = (y = PStr a)"
| "py_eq (PInt a) y = (y = PInt a)"
| "py_eq (PList xs) y = (case y of PList ys \<Rightarrow> list_all2 py_eq xs ys | _ \<Rightarrow> False)"
| "py_eq (PDict xs) y =
     (case y of
        PDict ys \<Rightarrow>
          length xs = length ys \<and>
          list_all (\<lambda>(k, v). case map_of ys k of None \<Rightarrow> False | Some w \<Rightarrow> py_eq v w) xs
      | _ \<Rightarrow> False)"
| "py_eq (POid a) y = (y = POid a)"

text \<open>Sorting the keys of every dictionary gives the form that the decoder returns for the
  text of the encoder.\<close>

fun canon :: "pyval \<Rightarrow> pyval" where
  "canon (PStr s) = PStr s"
| "canon (PInt i) = PInt i"
| "canon (PList vs) = PList (map canon vs)"
| "canon (PDict kvs) = PDict (sort_key fst (map (\<lambda>(k, v). (k, canon v)) kvs))"
| "canon (POid h) = POid h"

text \<open>A Python dictionary has each key once.\<close>

fun wf_pyval :: "pyval \<Rightarrow> bool" where
  "wf_pyval (PStr s) = True"
| "wf_pyval (PInt i) = True"
| "wf_pyval (PList vs) = list_all wf_pyval vs"
| "wf_pyval (PDict kvs) = (distinct (map fst kvs) \<and> list_all (\<lambda>(k, v). wf_pyval v) kvs)"
| "wf_pyval (POid h) = True"

text \<open>With the bound \<open>n\<close>, a scanner that returns has read at least one character, and
  returns the same when its bound is the number of characters it has read.\<close>

definition enough :: "nat \<Rightarrow> bool" where
  "enough n =
     ((\<forall>s v r. scan_value n s = Some (v, r) \<longrightarrow>
          length r < length s \<and> scan_value (length s - length r) s = Some (v, r))
      \<and> (\<forall>s vs r. scan_array n s = Some (vs, r) \<longrightarrow>
          length r < length s \<and> scan_array (length s - length r) s = Some (vs, r))
      \<and> (\<forall>s ps r. scan_object n s = Some (ps, r) \<longrightarrow>
          length r < length s \<and> scan_object (length s - length r) s = Some (ps, r)))"

text \<open>Values in sorted form without object ids, and the texts that may follow a value
  inside an encoded document.\<close>

fun canonical :: "pyval \<Rightarrow> bool" where
  "canonical (PStr s) = True"
| "canonical (PInt i) = True"
| "canonical (PList vs) = list_all canonical vs"
| "canonical (PDict kvs) =
     (sorted (map fst kvs) \<and> distinct (map fst kvs) \<and> list_all (\<lambda>(k, v). canonical v) kvs)"
| "canonical (POid h) = False"

definition delim :: "string \<Rightarrow> bool" where
  "delim r = (case r of [] \<Rightarrow> True | d # _ \<Rightarrow> d = CHR '','' \<or> d = CHR '']'' \<or> d = CHR ''}'')"

section \<open>Object ids\<close>

text \<open>
  \<^verbatim>\<open>ObjectId(s)\<close> of the \<open>bson\<close> package accepts a string of 24 hexadecimal digits;
  \<^verbatim>\<open>str(oid)\<close> is the lower-case form. The model raises \<open>InvalidId\<close> on every other
  string (of the strings of 24 characters with white space between the digits, some of
  which the package takes as shorter ids, the model takes none).
\<close>

definition is_hex :: "char \<Rightarrow> bool" where
  "is_hex c = (hexval c \<noteq> None)"

definition lower_hex :: "char \<Rightarrow> char" where
  "lower_hex c = (case hexval c of None \<Rightarrow> c | Some n \<Rightarrow> hexchar n)"

definition ObjectId :: "string \<Rightarrow> error + string" where
  "ObjectId s = (if length s = 24 \<and> list_all is_hex s then Inr (map lower_hex s) else Inl InvalidId)"

definition is_oid :: "string \<Rightarrow> bool" where
  "is_oid h = (ObjectId h = Inr h)"

text \<open>\<^verbatim>\<open>convert_object_ids\<close> (routes.py, 23-27): object ids at the top level of a
  document become strings; nested values are left as they are.\<close>

definition convert_object_ids :: "(string \<times> pyval) list \<Rightarrow> (string \<times> pyval) list" where
  "convert_object_ids doc = map (\<lambda>(k, v). (k, case v of POid h \<Rightarrow> PStr h | _ \<Rightarrow> v)) doc"

section \<open>Key generation\<close>

text \<open>
  \<^verbatim>\<open>generate_api_key\<close> (routes.py, 30-32). The secure random source is an input: \<open>rnd i\<close>
  is the raw value of the \<open>i\<close>-th draw, and \<^verbatim>\<open>secrets.choice(chars)\<close> picks the
  character at that value reduced below \<^verbatim>\<open>len(chars)\<close>.
\<close>

definition ascii_letters :: string where
  "ascii_letters = ''abcdefghijklmnopqrstuvwxyzABCDEFGHIJKLMNOPQRSTUVWXYZ''"

definition chars :: string where
  "chars = ascii_letters @ ''0123456789'' @ ''!@#$%^&*()_+-=''"

definition choice :: "string \<Rightarrow> nat \<Rightarrow> char" where
  "choice seq r = seq ! (r mod length seq)"

definition generate_api_key :: "(nat \<Rightarrow> nat) \<Rightarrow> nat \<Rightarrow> string" where
  "generate_api_key rnd len = map (\<lambda>i. choice chars (rnd i)) [0..<len]"

section \<open>The record store and the cache\<close>

datatype StatusEnum = active | inactive

fun str_StatusEnum :: "StatusEnum \<Rightarrow> string" where
  "str_StatusEnum active = ''active''"
| "str_StatusEnum inactive = ''inactive''"

text \<open>The request model \<^verbatim>\<open>User\<close> (routes.py, 16-20) with fields \<^verbatim>\<open>id\<close>, \<^verbatim>\<open>name\<close>,
  \<^verbatim>\<open>company\<close>, \<^verbatim>\<open>status\<close>; a document of \<^verbatim>\<open>db.users\<close> is a user with its \<^verbatim>\<open>_id\<close>.\<close>

record User =
  User_id :: int
  User_name :: string
  User_company :: string
  User_status :: StatusEnum

record user_doc = User +
  user_oid :: string

text \<open>A document of \<^verbatim>\<open>db.keys\<close>: \<^verbatim>\<open>{"_id": ObjectId, "id": str, "keys": [{"key": str,
  "status": str}]}\<close>.\<close>

record api_key =
  key :: string
  status :: string

record key_doc =
  key_oid :: string
  key_id :: string
  keys :: "api_key list"

text \<open>The two Mongo collections, in insertion order, and the two Redis lists.
  \<^verbatim>\<open>find_one\<close> is \<open>find\<close> on the collection, \<^verbatim>\<open>insert_one\<close> appends the document with the
  object id it is given.\<close>

record state =
  db_users :: "user_doc list"
  db_keys :: "key_doc list"
  users_list :: "string list"
  api_keys_list :: "string list"

definition init_state :: state where
  "init_state = \<lparr>db_users = [], db_keys = [], users_list = [], api_keys_list = []\<rparr>"

text \<open>
  The driver encodes the filter and the document of a call in BSON before it sends them.
  BSON has integers of 4 and of 8 bytes: the encoder raises \<open>OverflowError\<close> on a Python
  \<^verbatim>\<open>int\<close> outside the signed 64-bit range, so \<^verbatim>\<open>db.users.find_one({"id": user.id})\<close>
  (routes.py, 39) raises on such an id before the store is asked; the request model takes
  any \<^verbatim>\<open>int\<close>. The other filters and documents of the routes hold strings and object ids
  only. Limits on the size of a document are not part of the model.
\<close>

definition bson_int :: "int \<Rightarrow> bool" where
  "bson_int i = (- (2 ^ 63) \<le> i \<and> i < 2 ^ 63)"

definition find_one_user :: "int \<Rightarrow> user_doc list \<Rightarrow> error + user_doc option" where
  "find_one_user i users =
     (if bson_int i then Inr (find (\<lambda>d. User_id d = i) users) else Inl OverflowError)"

text \<open>\<^verbatim>\<open>user.dict()\<close> and the dictionaries that stand for key documents.\<close>

definition dict_User :: "User \<Rightarrow> (string \<times> pyval) list" where
  "dict_User u =
     [(''id'', PInt (User_id u)), (''name'', PStr (User_name u)),
      (''company'', PStr (User_company u)), (''status'', PStr (str_StatusEnum (User_status u)))]"

definition dict_api_key :: "api_key \<Rightarrow> pyval" where
  "dict_api_key k = PDict [(''key'', PStr (key k)), (''status'', PStr (status k))]"

definition valid_key :: "string \<Rightarrow> api_key" where
  "valid_key k = \<lparr>key = k, status = ''valid''\<rparr>"

definition api_doc :: "string \<Rightarrow> api_key list \<Rightarrow> (string \<times> pyval) list" where
  "api_doc mongo_id ks = [(''id'', PStr mongo_id), (''keys'', PList (map dict_api_key ks))]"

text \<open>What \<^verbatim>\<open>find_one\<close> returns for a key document: its fields with the \<^verbatim>\<open>_id\<close>.\<close>

definition dict_key_doc :: "key_doc \<Rightarrow> (string \<times> pyval) list" where
  "dict_key_doc d = (''_id'', POid (key_oid d)) # api_doc (key_id d) (keys d)"

text \<open>\<^verbatim>\<open>update_one({"id": mongo_id}, {"$set": {"keys": ks}})\<close> changes the first
  document that matches.\<close>

fun update_one_keys :: "string \<Rightarrow> api_key list \<Rightarrow> key_doc list \<Rightarrow> key_doc list" where
  "update_one_keys mongo_id ks [] = []"
| "update_one_keys mongo_id ks (d # ds) =
     (if key_id d = mongo_id then d\<lparr>keys := ks\<rparr> # ds else d # update_one_keys mongo_id ks ds)"

text \<open>Redis: \<^verbatim>\<open>lrem(name, 0, value)\<close> removes every element equal to \<open>value\<close>,
  \<^verbatim>\<open>rpush\<close> appends at the tail, \<^verbatim>\<open>lrange(name, 0, -1)\<close> reads the whole list.\<close>

definition lrem0 :: "string \<Rightarrow> string list \<Rightarrow> string list" where
  "lrem0 v xs = removeAll v xs"

definition rpush :: "string \<Rightarrow> string list \<Rightarrow> string list" where
  "rpush v xs = xs @ [v]"

text \<open>
  The scan shared by the four loops over a cache list (routes.py, 94-98, 123-127,
  137-140, 147-150): decode each entry from the head, stop at the first one whose
  \<^verbatim>\<open>"id"\<close> equals the wanted value. An entry that fails to decode, or decodes to something
  without \<^verbatim>\<open>get\<close>, raises before any later entry is looked at.
\<close>

fun first_match :: "pyval \<Rightarrow> string list \<Rightarrow> error + (string \<times> pyval) option" where
  "first_match x [] = Inr None"
| "first_match x (entry # es) =
     (case json_loads entry of
        Inl e \<Rightarrow> Inl e
      | Inr entry_dict \<Rightarrow>
          (case py_get entry_dict ''id'' of
             Inl e \<Rightarrow> Inl e
           | Inr g \<Rightarrow> if g = Some x then Inr (Some (entry, entry_dict)) else first_match x es))"

text \<open>The loop of \<^verbatim>\<open>create_api_key\<close> and \<^verbatim>\<open>remove_api_key\<close> (routes.py, 93-98 and
  122-127): at the first entry of the id, \<^verbatim>\<open>lrem\<close> with count 0, then \<^verbatim>\<open>break\<close>.\<close>

definition remove_old_entry :: "string \<Rightarrow> string list \<Rightarrow> error + string list" where
  "remove_old_entry mongo_id old_entries =
     (case first_match (PStr mongo_id) old_entries of
        Inl e \<Rightarrow> Inl e
      | Inr None \<Rightarrow> Inr old_entries
      | Inr (Some (entry, entry_dict)) \<Rightarrow> Inr (lrem0 entry old_entries))"

section \<open>The five routes\<close>

text \<open>
  Every route returns its response, or the exception it raises, together with the state it
  leaves behind. The object ids that the store assigns on insertion are inputs of the
  routes that insert.
\<close>

definition create_user ::
  "(nat \<Rightarrow> nat) \<Rightarrow> string \<Rightarrow> string \<Rightarrow> User \<Rightarrow> state \<Rightarrow> (error + pyval) \<times> state" where
  "create_user rnd oid_u oid_k user s =
     (let user_dict = dict_User user in
      case find_one_user (User_id user) (db_users s) of
        Inl e \<Rightarrow> (Inl e, s)
      | Inr (Some existing) \<Rightarrow> (Inl (HTTPException 400 ''User ID already exists''), s)
      | Inr None \<Rightarrow>
          (let s1 = s\<lparr>db_users := db_users s @ [User.extend user (user_doc.fields oid_u)]\<rparr>;
               user_dict = user_dict @ [(''_id'', POid oid_u)];
               mongo_id = oid_u;
               user_dict = dict_set user_dict ''_id'' (PStr mongo_id);
               api_key = generate_api_key rnd 20;
               s2 = s1\<lparr>db_keys := db_keys s1 @
                      [\<lparr>key_oid = oid_k, key_id = mongo_id, keys = [valid_key api_key]\<rparr>]\<rparr>
           in (case json_dumps (PDict (convert_object_ids user_dict)) of
                 Inl e \<Rightarrow> (Inl e, s2)
               | Inr user_json \<Rightarrow>
                   (let s3 = s2\<lparr>users_list := rpush user_json (lrem0 user_json (users_list s2))\<rparr>
                    in (case json_dumps (PDict (api_doc mongo_id [valid_key api_key])) of
                          Inl e \<Rightarrow> (Inl e, s3)
                        | Inr api_json \<Rightarrow>
                            (let s4 = s3\<lparr>api_keys_list :=
                                           rpush api_json (lrem0 api_json (api_keys_list s3))\<rparr>
                             in (Inr (PDict [(''message'', PStr ''User created''),
                                             (''user'', PDict user_dict),
                                             (''api_key'', PStr api_key)]), s4)))))))"

definition create_api_key ::
  "(nat \<Rightarrow> nat) \<Rightarrow> string \<Rightarrow> string \<Rightarrow> state \<Rightarrow> (error + pyval) \<times> state" where
  "create_api_key rnd oid_k mongo_id s =
     (case ObjectId mongo_id of
        Inl e \<Rightarrow> (Inl e, s)
      | Inr oid \<Rightarrow>
          (case find (\<lambda>d. user_oid d = oid) (db_users s) of
             None \<Rightarrow> (Inl (HTTPException 404 ''User not found''), s)
           | Some mongo_user \<Rightarrow>
               (let new_key = generate_api_key rnd 20;
                    (key_doc, s1) =
                      (case find (\<lambda>d. key_id d = mongo_id) (db_keys s) of
                         None \<Rightarrow>
                           (api_doc mongo_id [valid_key new_key] @ [(''_id'', POid oid_k)],
                            s\<lparr>db_keys := db_keys s @
                                [\<lparr>key_oid = oid_k, key_id = mongo_id,
                                  keys = [valid_key new_key]\<rparr>]\<rparr>)
                       | Some d \<Rightarrow>
                           (dict_key_doc (d\<lparr>keys := keys d @ [valid_key new_key]\<rparr>),
                            s\<lparr>db_keys := update_one_keys mongo_id (keys d @ [valid_key new_key])
                                            (db_keys s)\<rparr>));
                    key_doc_serialized = convert_object_ids key_doc
                in (case remove_old_entry mongo_id (api_keys_list s1) of
                      Inl e \<Rightarrow> (Inl e, s1)
                    | Inr entries \<Rightarrow>
                        (let s2 = s1\<lparr>api_keys_list := entries\<rparr>
                         in (case json_dumps (PDict key_doc_serialized) of
                               Inl e \<Rightarrow> (Inl e, s2)
                             | Inr updated_json \<Rightarrow>
                                 (Inr (PDict [(''message'', PStr ''New API key created''),
                                              (''new_key'', PStr new_key)]),
                                  s2\<lparr>api_keys_list := rpush updated_json (api_keys_list s2)\<rparr>)))))))"

definition remove_api_key :: "string \<Rightarrow> string \<Rightarrow> state \<Rightarrow> (error + pyval) \<times> state" where
  "remove_api_key mongo_id key_to_remove s =
     (case find (\<lambda>d. key_id d = mongo_id) (db_keys s) of
        None \<Rightarrow> (Inl (HTTPException 404 ''API key document not found''), s)
      | Some key_doc \<Rightarrow>
          (let filtered_keys = filter (\<lambda>k. key k \<noteq> key_to_remove) (keys key_doc) in
           if length filtered_keys = length (keys key_doc)
           then (Inl (HTTPException 404 ''API key not found''), s)
           else
             (let s1 = s\<lparr>db_keys := update_one_keys mongo_id filtered_keys (db_keys s)\<rparr>;
                  updated_doc = api_doc mongo_id filtered_keys
              in (case json_dumps (PDict updated_doc) of
                    Inl e \<Rightarrow> (Inl e, s1)
                  | Inr updated_json \<Rightarrow>
                      (case remove_old_entry mongo_id (api_keys_list s1) of
                         Inl e \<Rightarrow> (Inl e, s1)
                       | Inr entries \<Rightarrow>
                           (Inr (PDict [(''message'', PStr ''API key removed''),
                                        (''removed_key'', PStr key_to_remove)]),
                            s1\<lparr>api_keys_list := rpush updated_json entries\<rparr>))))))"

definition list_api_keys :: "string \<Rightarrow> state \<Rightarrow> error + pyval" where
  "list_api_keys mongo_id s =
     (case first_match (PStr mongo_id) (api_keys_list s) of
        Inl e \<Rightarrow> Inl e
      | Inr None \<Rightarrow> Inl (HTTPException 404 ''API keys not found in Redis'')
      | Inr (Some (entry, entry_dict)) \<Rightarrow> Inr entry_dict)"

definition get_user :: "int \<Rightarrow> state \<Rightarrow> error + pyval" where
  "get_user user_id s =
     (case first_match (PInt user_id) (users_list s) of
        Inl e \<Rightarrow> Inl e
      | Inr None \<Rightarrow> Inl (HTTPException 404 ''User not found in Redis'')
      | Inr (Some (entry, entry_dict)) \<Rightarrow> Inr entry_dict)"

section \<open>Reading a cache list\<close>

text \<open>An entry belongs to an identifier when it decodes to a dictionary whose \<^verbatim>\<open>"id"\<close>
  is that identifier; it is a document entry when it decodes to a dictionary at all.\<close>

definition has_id :: "pyval \<Rightarrow> string \<Rightarrow> bool" where
  "has_id x entry =
     (case json_loads entry of Inr (PDict kvs) \<Rightarrow> map_of kvs ''id'' = Some x | _ \<Rightarrow> False)"

definition is_doc_entry :: "string \<Rightarrow> bool" where
  "is_doc_entry entry = (case json_loads entry of Inr (PDict kvs) \<Rightarrow> True | _ \<Rightarrow> False)"

definition count_id :: "string \<Rightarrow> string list \<Rightarrow> nat" where
  "count_id mongo_id entries = length (filter (has_id (PStr mongo_id)) entries)"






text \<open>The list that the loop of \<^verbatim>\<open>create_api_key\<close> and \<^verbatim>\<open>remove_api_key\<close> leaves when
  it does not raise: without every copy of the first entry of the id.\<close>

definition without_old :: "string \<Rightarrow> string list \<Rightarrow> string list" where
  "without_old mongo_id entries =
     (case find (has_id (PStr mongo_id)) entries of
        None \<Rightarrow> entries
      | Some e \<Rightarrow> removeAll e entries)"

section \<open>The entries the routes write\<close>

text \<open>The three serialized documents that the routes append to the cache lists: the user with
  its \<^verbatim>\<open>_id\<close> (routes.py, 55), the key set built from a literal (63 and 119) and the
  key set with its own \<^verbatim>\<open>_id\<close> (100).\<close>

definition user_json :: "User \<Rightarrow> string \<Rightarrow> string" where
  "user_json u h = json_encode (PDict (dict_User u @ [(''_id'', PStr h)]))"

definition api_json :: "string \<Rightarrow> api_key list \<Rightarrow> string" where
  "api_json m ks = json_encode (PDict (api_doc m ks))"

definition key_doc_json :: "key_doc \<Rightarrow> string" where
  "key_doc_json d = json_encode (PDict ((''_id'', PStr (key_oid d)) # api_doc (key_id d) (keys d)))"

section \<open>Cache and store in step\<close>

text \<open>The \<^verbatim>\<open>"id"\<close> of an entry, and whether a returned document has a field.\<close>

definition entry_id :: "string \<Rightarrow> pyval option" where
  "entry_id entry = (case json_loads entry of Inr (PDict kvs) \<Rightarrow> map_of kvs ''id'' | _ \<Rightarrow> None)"

definition has_field :: "pyval \<Rightarrow> string \<Rightarrow> bool" where
  "has_field d k = (case d of PDict kvs \<Rightarrow> map_of kvs k \<noteq> None | _ \<Rightarrow> False)"

text \<open>
  The state the service keeps when its requests run one after the other: every cache
  entry is a document, the api-keys list holds at most one entry for an id and only
  entries of key sets in the store, a storage id has at most one key set and every key
  set belongs to a user, and the users list holds only entries of users in the store.
  The states reached from the empty one by the three writing routes are of this kind; the
  store assigns to a new user an object id that no user has yet.
\<close>

definition consistent :: "state \<Rightarrow> bool" where
  "consistent s =
     (list_all is_doc_entry (api_keys_list s)
      \<and> distinct (map entry_id (api_keys_list s))
      \<and> list_all (\<lambda>e. list_ex (\<lambda>d. entry_id e = Some (PStr (key_id d))) (db_keys s)) (api_keys_list s)
      \<and> distinct (map key_id (db_keys s))
      \<and> list_all (\<lambda>d. list_ex (\<lambda>u. ObjectId (key_id d) = Inr (user_oid u)) (db_users s)) (db_keys s)
      \<and> list_all is_doc_entry (users_list s)
      \<and> list_all (\<lambda>e. list_ex (\<lambda>u. entry_id e = Some (PInt (User_id u))) (db_users s)) (users_list s))"

inductive reachable :: "state \<Rightarrow> bool" where
  init: "reachable init_state"
| user: "reachable s \<Longrightarrow> is_oid oid_u \<Longrightarrow> oid_u \<notin> user_oid ` set (db_users s) \<Longrightarrow>
         reachable (snd (create_user rnd oid_u oid_k u s))"
| new_key: "reachable s \<Longrightarrow> reachable (snd (create_api_key rnd oid_k mongo_id s))"
| del_key: "reachable s \<Longrightarrow> reachable (snd (remove_api_key mongo_id key_to_remove s))"

text \<open>The api-keys list after a change of the key set \<open>m\<close>.\<close>

definition replaced :: "string \<Rightarrow> string \<Rightarrow> string list \<Rightarrow> string list" where
  "replaced m new es = filter (\<lambda>e. \<not> has_id (PStr m) e) es @ [new]"

text \<open>
  A cache list has a single entry for an id when each of its entries decodes to a document
  and the entries of the id are copies of one string. Two requests that change one key set
  at the same time can leave two different entries for its id (each works on the list it
  read before the other one wrote), and the loop removes the copies of the first one only.
\<close>

definition single_entry :: "string \<Rightarrow> string list \<Rightarrow> bool" where
  "single_entry m es =
     (list_all is_doc_entry es \<and> length (remdups (filter (has_id (PStr m)) es)) \<le> 1)"

section \<open>The JSON round trip\<close>

subsection \<open>Strings\<close>

lemma lt16_cases:
  "k < (16::nat) \<Longrightarrow> k = 0 \<or> k = 1 \<or> k = 2 \<or> k = 3 \<or> k = 4 \<or> k = 5 \<or> k = 6 \<or> k = 7 \<or>
     k = 8 \<or> k = 9 \<or> k = 10 \<or> k = 11 \<or> k = 12 \<or> k = 13 \<or> k = 14 \<or> k = 15"
  by arith

lemma hexval_hexchar: "k < 16 \<Longrightarrow> hexval (hexchar k) = Some k"
  by (drule lt16_cases) (auto simp: hexval_def hexchar_def)

lemma hexval_zero: "hexval (CHR ''0'') = Some 0"
  by (simp add: hexval_def)

lemma hex4_byte:
  "hex4 (CHR ''0'') (CHR ''0'') (hexchar (of_char c div 16)) (hexchar (of_char c mod 16)) = Some c"
proof -
  have "(of_char c :: nat) < 256" by simp
  then have "(of_char c :: nat) div 16 < 16"
    using less_mult_imp_div_less [of "of_char c" 16 16] by simp
  then show ?thesis
    by (simp add: hex4_def hexval_hexchar hexval_zero)
qed

lemma scanstring_escape:
  "scanstring (escape_char c @ r) = map_option (apfst ((#) c)) (scanstring r)"
proof -
  consider (q) "c = dquote" | (b) "c = backslash"
    | (n) "c = CHR 0x0A" | (r) "c = CHR 0x0D" | (t) "c = CHR 0x09" | (bs) "c = CHR 0x08" | (f) "c = CHR 0x0C"
    | (plain) "c \<noteq> dquote" "c \<noteq> backslash" "32 \<le> (of_char c :: nat)" "(of_char c :: nat) \<le> 126"
    | (other) "c \<noteq> dquote" "c \<noteq> backslash" "c \<noteq> CHR 0x0A" "c \<noteq> CHR 0x0D" "c \<noteq> CHR 0x09"
        "c \<noteq> CHR 0x08" "c \<noteq> CHR 0x0C" "\<not> (32 \<le> (of_char c :: nat) \<and> (of_char c :: nat) \<le> 126)"
    by blast
  then show ?thesis
  proof cases
    case q then show ?thesis by (simp add: escape_char_def unescape_def dquote_def backslash_def)
  next
    case b then show ?thesis by (simp add: escape_char_def unescape_def dquote_def backslash_def)
  next
    case n then show ?thesis by (simp add: escape_char_def unescape_def dquote_def backslash_def)
  next
    case r then show ?thesis by (simp add: escape_char_def unescape_def dquote_def backslash_def)
  next
    case t then show ?thesis by (simp add: escape_char_def unescape_def dquote_def backslash_def)
  next
    case bs then show ?thesis by (simp add: escape_char_def unescape_def dquote_def backslash_def)
  next
    case f then show ?thesis by (simp add: escape_char_def unescape_def dquote_def backslash_def)
  next
    case plain
    then have "escape_char c = [c]"
      by (auto simp: escape_char_def dquote_def backslash_def)
    with plain show ?thesis by simp
  next
    case other
    then have "escape_char c = [backslash, CHR ''u'', CHR ''0'', CHR ''0'',
            hexchar ((of_char c :: nat) div 16), hexchar ((of_char c :: nat) mod 16)]"
      by (simp add: escape_char_def)
    then show ?thesis
      by (simp add: hex4_byte dquote_def backslash_def)
  qed
qed

lemma scanstring_body:
  "scanstring (concat (map escape_char s) @ dquote # rest) = Some (s, rest)"
  by (induction s) (simp_all add: scanstring_escape del: scanstring.simps, simp)

lemma scanstring_encoded:
  "encode_basestring_ascii s @ rest = dquote # concat (map escape_char s) @ dquote # rest"
  by (simp add: encode_basestring_ascii_def)

subsection \<open>Integers\<close>

lemma of_char_digit: "(d::nat) < 10 \<Longrightarrow> (of_char (char_of (48 + d) :: char) :: nat) = 48 + d"
  by simp

lemma is_digit_digit: "(d::nat) < 10 \<Longrightarrow> is_digit (char_of (48 + d))"
  by (simp add: is_digit_def)

lemma char_eq_via_code: "(c = d) = ((of_char c :: nat) = of_char d)"
  by simp

lemma char_of_48: "char_of (48::nat) = CHR ''0''"
  by (simp add: char_eq_via_code)

lemma digits_all: "list_all is_digit (digits n)"
proof (induction n rule: digits.induct)
  case (1 n)
  show ?case
  proof (cases "n < 10")
    case True
    then show ?thesis by (subst digits.simps) (simp add: is_digit_digit)
  next
    case False
    have "n mod 10 < 10" by simp
    then have "is_digit (char_of (48 + n mod 10))" by (rule is_digit_digit)
    with False 1 show ?thesis by (subst digits.simps) simp
  qed
qed

lemma digits_ne: "digits n \<noteq> []"
  by (subst digits.simps) simp

lemma nat_of_digits_snoc:
  "nat_of_digits (ds @ [c]) = 10 * nat_of_digits ds + ((of_char c :: nat) - 48)"
  by (simp add: nat_of_digits_def)

lemma nat_of_digits_digits: "nat_of_digits (digits n) = n"
proof (induction n rule: digits.induct)
  case (1 n)
  show ?case
  proof (cases "n < 10")
    case True
    then show ?thesis by (subst digits.simps) (simp add: nat_of_digits_def)
  next
    case False
    have m: "n mod 10 < 10" by simp
    have "nat_of_digits (digits n) = 10 * nat_of_digits (digits (n div 10)) + n mod 10"
      using False by (subst digits.simps) (simp add: nat_of_digits_snoc of_char_digit [OF m])
    with False 1 show ?thesis by simp
  qed
qed

lemma digits_zero: "digits 0 = [CHR ''0'']"
  by (subst digits.simps) (simp add: char_of_48)

lemma hd_digits_nonzero: "0 < n \<Longrightarrow> hd (digits n) \<noteq> CHR ''0''"
proof (induction n rule: digits.induct)
  case (1 n)
  show ?case
  proof (cases "n < 10")
    case True
    with 1(2) have "(of_char (char_of (48 + n) :: char) :: nat) \<noteq> of_char (CHR ''0'')"
      by (simp add: of_char_digit)
    then have "char_of (48 + n) \<noteq> CHR ''0''"
      by (simp only: char_eq_via_code not_False_eq_True)
    with True show ?thesis by (subst digits.simps) simp
  next
    case False
    then have "0 < n div 10" by simp
    with False 1 have "hd (digits (n div 10)) \<noteq> CHR ''0''" by simp
    with False show ?thesis
      by (subst digits.simps) (simp add: digits_ne)
  qed
qed

lemma takeWhile_all_append:
  "list_all P xs \<Longrightarrow> (ys = [] \<or> \<not> P (hd ys)) \<Longrightarrow> takeWhile P (xs @ ys) = xs"
  by (induction xs) (auto simp: takeWhile_eq_Nil_iff)

lemma dropWhile_all_append:
  "list_all P xs \<Longrightarrow> (ys = [] \<or> \<not> P (hd ys)) \<Longrightarrow> dropWhile P (xs @ ys) = ys"
  by (induction xs) (auto simp: dropWhile_eq_self_iff)

lemma delim_not_digit: "delim r \<Longrightarrow> r = [] \<or> \<not> is_digit (hd r)"
  by (auto simp: delim_def is_digit_def split: list.splits)

lemma delim_cases:
  "delim r \<Longrightarrow> r = [] \<or> (\<exists>d t. r = d # t \<and> d \<noteq> CHR ''.'' \<and> d \<noteq> CHR ''e'' \<and> d \<noteq> CHR ''E'')"
  by (auto simp: delim_def split: list.splits)

lemma scan_digits_digits:
  assumes "delim rest"
  shows "scan_digits (digits n @ rest) = Some (n, rest)"
proof (cases "n = 0")
  case True
  then show ?thesis
    using delim_cases [OF assms]
    by (auto simp: digits_zero scan_digits_def is_digit_def nat_of_digits_def)
next
  case False
  obtain c cs where d: "digits n = c # cs"
    using digits_ne [of n] by (cases "digits n") auto
  have c0: "c \<noteq> CHR ''0''"
    using hd_digits_nonzero [of n] False d by simp
  have dc: "is_digit c"
    using digits_all [of n] d by simp
  have tw: "takeWhile is_digit (digits n @ rest) = digits n"
    and dw: "dropWhile is_digit (digits n @ rest) = rest"
    using digits_all [of n] delim_not_digit [OF assms]
    by (simp_all add: takeWhile_all_append dropWhile_all_append)
  have "scan_digits ((c # cs) @ rest) = Some (nat_of_digits (c # cs), rest)"
    using c0 dc tw dw delim_cases [OF assms] unfolding d
    by (auto simp: scan_digits_def)
  then show ?thesis
    by (simp add: d [symmetric] nat_of_digits_digits)
qed

lemma hd_digits_not_minus: "hd (digits n) \<noteq> CHR ''-''"
  using digits_all [of n] digits_ne [of n]
  by (cases "digits n") (auto simp: is_digit_def)

lemma scan_int_str_int:
  assumes "delim rest"
  shows "scan_int (str_int i @ rest) = Some (i, rest)"
proof (cases "i < 0")
  case True
  then show ?thesis
    by (simp add: str_int_def scan_int_def scan_digits_digits [OF assms])
next
  case False
  obtain c cs where d: "digits (nat i) = c # cs"
    using digits_ne [of "nat i"] by (cases "digits (nat i)") auto
  have "c \<noteq> CHR ''-''"
    using hd_digits_not_minus [of "nat i"] d by simp
  then have "scan_int ((c # cs) @ rest) = map_option (apfst int) (scan_digits ((c # cs) @ rest))"
    by (simp add: scan_int_def)
  with False show ?thesis
    by (simp add: str_int_def d [symmetric] scan_digits_digits [OF assms])
qed

lemma str_int_head:
  "\<exists>h t. str_int i = h # t \<and> (h = CHR ''-'' \<or> is_digit h)"
proof (cases "i < 0")
  case True
  then show ?thesis by (simp add: str_int_def)
next
  case False
  then show ?thesis
    using digits_all [of "nat i"] digits_ne [of "nat i"]
    by (cases "digits (nat i)") (auto simp: str_int_def)
qed

subsection \<open>The bound of the scanners\<close>

lemma scan_mono_step:
  "(scan_value n s = Some r \<longrightarrow> scan_value (Suc n) s = Some r)
   \<and> (scan_array n s = Some ra \<longrightarrow> scan_array (Suc n) s = Some ra)
   \<and> (scan_object n s = Some ro \<longrightarrow> scan_object (Suc n) s = Some ro)"
proof (induction n arbitrary: s r ra ro)
  case 0
  show ?case by simp
next
  case (Suc n)
  have v: "scan_value n t = Some x \<Longrightarrow> scan_value (Suc n) t = Some x" for t x
    using Suc [of t x] by blast
  have a: "scan_array n t = Some x \<Longrightarrow> scan_array (Suc n) t = Some x" for t x
    using Suc [of t _ x] by blast
  have ob: "scan_object n t = Some x \<Longrightarrow> scan_object (Suc n) t = Some x" for t x
    using Suc [of t _ _ x] by blast
  have 1: "scan_value (Suc n) s = Some r \<longrightarrow> scan_value (Suc (Suc n)) s = Some r"
  proof
    assume h: "scan_value (Suc n) s = Some r"
    show "scan_value (Suc (Suc n)) s = Some r"
      using h
      apply (subst scan_value.simps(2))
      apply (subst (asm) scan_value.simps(2))
      apply (auto split: list.splits if_splits option.splits simp del: scan_value.simps scan_array.simps scan_object.simps
              dest!: a ob)
      done
  qed
  have 2: "scan_array (Suc n) s = Some ra \<longrightarrow> scan_array (Suc (Suc n)) s = Some ra"
  proof
    assume h: "scan_array (Suc n) s = Some ra"
    show "scan_array (Suc (Suc n)) s = Some ra"
      using h
      apply (subst scan_array.simps(2))
      apply (subst (asm) scan_array.simps(2))
      apply (auto split: list.splits if_splits option.splits prod.splits
              simp del: scan_value.simps scan_array.simps scan_object.simps
              dest!: v a)
      done
  qed
  have 3: "scan_object (Suc n) s = Some ro \<longrightarrow> scan_object (Suc (Suc n)) s = Some ro"
  proof
    assume h: "scan_object (Suc n) s = Some ro"
    show "scan_object (Suc (Suc n)) s = Some ro"
      using h
      apply (subst scan_object.simps(2))
      apply (subst (asm) scan_object.simps(2))
      apply (auto split: list.splits if_splits option.splits prod.splits
              simp del: scan_value.simps scan_array.simps scan_object.simps
              dest!: v ob)
      done
  qed
  from 1 2 3 show ?case by blast
qed

lemma scan_value_mono: "scan_value n s = Some r \<Longrightarrow> n \<le> m \<Longrightarrow> scan_value m s = Some r"
  by (induction m) (auto simp: le_Suc_eq scan_mono_step simp del: scan_value.simps)

lemma scan_array_mono: "scan_array n s = Some r \<Longrightarrow> n \<le> m \<Longrightarrow> scan_array m s = Some r"
  by (induction m) (auto simp: le_Suc_eq scan_mono_step simp del: scan_array.simps)

lemma scan_object_mono: "scan_object n s = Some r \<Longrightarrow> n \<le> m \<Longrightarrow> scan_object m s = Some r"
  by (induction m) (auto simp: le_Suc_eq scan_mono_step simp del: scan_object.simps)

lemma skip_ws_length: "length (skip_ws s) \<le> length s"
  by (simp add: skip_ws_def length_dropWhile_le)

lemma scanstring_length: "scanstring cs = Some (x, r) \<Longrightarrow> length r < length cs"
proof (induction cs arbitrary: x r rule: scanstring.induct)
  case 1
  then show ?case by simp
next
  case (2 c cs)
  show ?case
    using "2.prems" "2.IH"
    by (auto split: if_splits list.splits option.splits simp: less_Suc_eq)
       (fastforce simp: less_Suc_eq)+
qed

lemma scan_digits_length:
  assumes h: "scan_digits s = Some (n, r)"
  shows "length r < length s"
proof (cases s)
  case Nil
  with h show ?thesis by (simp add: scan_digits_def)
next
  case (Cons c cs)
  from h have d: "is_digit c" using Cons by (auto simp: scan_digits_def split: if_splits)
  from h Cons d have "r = cs \<or> r = dropWhile is_digit cs"
    by (auto simp: scan_digits_def Let_def split: if_splits list.splits prod.splits)
  then show ?thesis
    using Cons length_dropWhile_le [of is_digit cs] by auto
qed

lemma scan_int_length: "scan_int s = Some (i, r) \<Longrightarrow> length r < length s"
  by (cases s) (auto simp: scan_int_def split: if_splits dest!: scan_digits_length)

lemma enough_value_step:
  assumes ih: "enough n" and h: "scan_value (Suc n) s = Some (v, r)"
  shows "length r < length s \<and> scan_value (length s - length r) s = Some (v, r)"
proof (cases s)
  case Nil
  with h show ?thesis by simp
next
  case (Cons c cs)
  consider (str) "c = dquote"
    | (lst) "c \<noteq> dquote" "c = CHR ''[''"
    | (obj) "c \<noteq> dquote" "c \<noteq> CHR ''[''" "c = CHR ''{''"
    | (num) "c \<noteq> dquote" "c \<noteq> CHR ''[''" "c \<noteq> CHR ''{''"
    by blast
  then show ?thesis
  proof cases
    case str
    with h Cons obtain x where x: "scanstring cs = Some (x, r)" "v = PStr x"
      by auto
    then have l: "length r < length cs" by (auto dest: scanstring_length)
    then obtain k where k: "length s - length r = Suc k"
      using Cons by (cases "length s - length r") auto
    show ?thesis
      using l x str Cons unfolding k by simp
  next
    case num
    with h Cons obtain i where i: "scan_int s = Some (i, r)" "v = PInt i"
      by auto
    then have l: "length r < length s" by (auto dest: scan_int_length)
    then obtain k where k: "length s - length r = Suc k"
      by (cases "length s - length r") auto
    show ?thesis
      using l i num Cons unfolding k by simp
  next
    case lst
    from h Cons lst obtain d r0 where sk: "skip_ws cs = d # r0"
      by (cases "skip_ws cs") auto
    have le: "length (d # r0) \<le> length cs"
      using skip_ws_length [of cs] sk by simp
    show ?thesis
    proof (cases "d = CHR '']''")
      case True
      with h Cons lst sk have "v = PList []" "r = r0" by auto
      moreover have "length r0 < length s" using le Cons by simp
      moreover then obtain k where "length s - length r0 = Suc k"
        by (cases "length s - length r0") auto
      ultimately show ?thesis
        using Cons lst sk True by simp
    next
      case False
      with h Cons lst sk obtain vs where a: "scan_array n (d # r0) = Some (vs, r)" "v = PList vs"
        by auto
      from ih a(1) have l: "length r < length (d # r0)"
        and f: "scan_array (length (d # r0) - length r) (d # r0) = Some (vs, r)"
        unfolding enough_def by blast+
      obtain k where k: "length s - length r = Suc k"
        using l le Cons by (cases "length s - length r") auto
      have "length (d # r0) - length r \<le> k"
        using k l le Cons by simp
      with f have "scan_array k (d # r0) = Some (vs, r)" by (rule scan_array_mono)
      then show ?thesis
        using l le Cons lst sk False a(2) unfolding k by simp
    qed
  next
    case obj
    from h Cons obj obtain d r0 where sk: "skip_ws cs = d # r0"
      by (cases "skip_ws cs") auto
    have le: "length (d # r0) \<le> length cs"
      using skip_ws_length [of cs] sk by simp
    show ?thesis
    proof (cases "d = CHR ''}''")
      case True
      with h Cons obj sk have "v = PDict []" "r = r0" by auto
      moreover have "length r0 < length s" using le Cons by simp
      moreover then obtain k where "length s - length r0 = Suc k"
        by (cases "length s - length r0") auto
      ultimately show ?thesis
        using Cons obj sk True by simp
    next
      case False
      with h Cons obj sk obtain ps where a: "scan_object n (d # r0) = Some (ps, r)"
        "v = PDict (dict_of_pairs ps)"
        by auto
      from ih a(1) have l: "length r < length (d # r0)"
        and f: "scan_object (length (d # r0) - length r) (d # r0) = Some (ps, r)"
        unfolding enough_def by blast+
      obtain k where k: "length s - length r = Suc k"
        using l le Cons by (cases "length s - length r") auto
      have "length (d # r0) - length r \<le> k"
        using k l le Cons by simp
      with f have "scan_object k (d # r0) = Some (ps, r)" by (rule scan_object_mono)
      then show ?thesis
        using l le Cons obj sk False a(2) unfolding k by simp
    qed
  qed
qed

lemma enough_array_step:
  assumes ih: "enough n" and h: "scan_array (Suc n) s = Some (vs, r)"
  shows "length r < length s \<and> scan_array (length s - length r) s = Some (vs, r)"
proof -
  from h obtain v r1 where v: "scan_value n s = Some (v, r1)"
    by (cases "scan_value n s") auto
  from ih v have l1: "length r1 < length s"
    and f1: "scan_value (length s - length r1) s = Some (v, r1)"
    unfolding enough_def by blast+
  from h v obtain d r2 where sk: "skip_ws r1 = d # r2"
    by (cases "skip_ws r1") auto
  have le: "length (d # r2) \<le> length r1"
    using skip_ws_length [of r1] sk by simp
  show ?thesis
  proof (cases "d = CHR '']''")
    case True
    with h v sk have e: "vs = [v]" "r = r2" by auto
    have l: "length r < length s" using e le l1 by simp
    then obtain k where k: "length s - length r = Suc k"
      by (cases "length s - length r") auto
    have "length s - length r1 \<le> k" using k e le l1 by simp
    with f1 have "scan_value k s = Some (v, r1)" by (rule scan_value_mono)
    then show ?thesis
      using l sk True e unfolding k by simp
  next
    case False
    with h v sk have c: "d = CHR '',''"
      by (auto split: if_splits)
    with h v sk False obtain vs' where a: "scan_array n (skip_ws r2) = Some (vs', r)" "vs = v # vs'"
      by auto
    from ih a(1) have l2: "length r < length (skip_ws r2)"
      and f2: "scan_array (length (skip_ws r2) - length r) (skip_ws r2) = Some (vs', r)"
      unfolding enough_def by blast+
    have le2: "length (skip_ws r2) \<le> length r2" by (rule skip_ws_length)
    have l: "length r < length s" using l2 le2 le l1 by simp
    then obtain k where k: "length s - length r = Suc k"
      by (cases "length s - length r") auto
    have "length s - length r1 \<le> k" using k l2 le2 le l1 by simp
    with f1 have v': "scan_value k s = Some (v, r1)" by (rule scan_value_mono)
    have "length (skip_ws r2) - length r \<le> k" using k l2 le2 le l1 by simp
    with f2 have a': "scan_array k (skip_ws r2) = Some (vs', r)" by (rule scan_array_mono)
    show ?thesis
      using l sk False c a(2) v' a' unfolding k by simp
  qed
qed

lemma enough_object_step:
  assumes ih: "enough n" and h: "scan_object (Suc n) s = Some (ps, r)"
  shows "length r < length s \<and> scan_object (length s - length r) s = Some (ps, r)"
proof -
  from h obtain q cs where s: "s = q # cs" "q = dquote"
    by (cases s) (auto split: if_splits)
  from h s obtain key r0 where ks: "scanstring cs = Some (key, r0)"
    by (cases "scanstring cs") auto
  then have l0: "length r0 < length cs" by (rule scanstring_length)
  from h s ks obtain col r1 where sk0: "skip_ws r0 = col # r1" "col = CHR '':''"
    by (cases "skip_ws r0") (auto split: if_splits)
  have le0: "length (col # r1) \<le> length r0"
    using skip_ws_length [of r0] sk0 by simp
  from h s ks sk0 obtain v r2 where v: "scan_value n (skip_ws r1) = Some (v, r2)"
    by (cases "scan_value n (skip_ws r1)") auto
  from ih v have l1: "length r2 < length (skip_ws r1)"
    and f1: "scan_value (length (skip_ws r1) - length r2) (skip_ws r1) = Some (v, r2)"
    unfolding enough_def by blast+
  have le1: "length (skip_ws r1) \<le> length r1" by (rule skip_ws_length)
  from h s ks sk0 v obtain d r3 where sk: "skip_ws r2 = d # r3"
    by (cases "skip_ws r2") auto
  have le: "length (d # r3) \<le> length r2"
    using skip_ws_length [of r2] sk by simp
  show ?thesis
  proof (cases "d = CHR ''}''")
    case True
    with h s ks sk0 v sk have e: "ps = [(key, v)]" "r = r3" by auto
    have l: "length r < length s" using e le l1 le1 le0 l0 s by simp
    then obtain k where k: "length s - length r = Suc k"
      by (cases "length s - length r") auto
    have "length (skip_ws r1) - length r2 \<le> k" using k e le l1 le1 le0 l0 s by simp
    with f1 have "scan_value k (skip_ws r1) = Some (v, r2)" by (rule scan_value_mono)
    then show ?thesis
      using l s ks sk0 sk True e unfolding k by simp
  next
    case False
    with h s ks sk0 v sk have c: "d = CHR '',''"
      by (auto split: if_splits)
    with h s ks sk0 v sk False obtain ps' where
      a: "scan_object n (skip_ws r3) = Some (ps', r)" "ps = (key, v) # ps'"
      by auto
    from ih a(1) have l2: "length r < length (skip_ws r3)"
      and f2: "scan_object (length (skip_ws r3) - length r) (skip_ws r3) = Some (ps', r)"
      unfolding enough_def by blast+
    have le2: "length (skip_ws r3) \<le> length r3" by (rule skip_ws_length)
    have l: "length r < length s" using l2 le2 le l1 le1 le0 l0 s by simp
    then obtain k where k: "length s - length r = Suc k"
      by (cases "length s - length r") auto
    have "length (skip_ws r1) - length r2 \<le> k" using k l2 le2 le l1 le1 le0 l0 s by simp
    with f1 have v': "scan_value k (skip_ws r1) = Some (v, r2)" by (rule scan_value_mono)
    have "length (skip_ws r3) - length r \<le> k" using k l2 le2 le l1 le1 le0 l0 s by simp
    with f2 have a': "scan_object k (skip_ws r3) = Some (ps', r)" by (rule scan_object_mono)
    show ?thesis
      using l s ks sk0 sk False c a(2) v' a' unfolding k by simp
  qed
qed

lemma enough_all: "enough n"
proof (induction n)
  case 0
  show ?case by (simp add: enough_def)
next
  case (Suc n)
  show ?case
    unfolding enough_def
    using enough_value_step [OF Suc] enough_array_step [OF Suc] enough_object_step [OF Suc]
    by blast
qed

text \<open>Whatever bound lets the scanner read a value, the bound that \<open>json_decode\<close> takes does
  as well: a text is refused for what it is, never for the bound.\<close>

lemma json_decode_fuel:
  assumes "scan_value n (skip_ws s) = Some (v, r)"
  shows "scan_value (Suc (length s)) (skip_ws s) = Some (v, r)"
proof -
  from enough_all [of n] assms
  have "scan_value (length (skip_ws s) - length r) (skip_ws s) = Some (v, r)"
    unfolding enough_def by blast
  moreover have "length (skip_ws s) - length r \<le> Suc (length s)"
    using skip_ws_length [of s] by simp
  ultimately show ?thesis by (rule scan_value_mono)
qed

lemma json_decode_complete:
  "scan_value n (skip_ws s) = Some (v, r) \<Longrightarrow> skip_ws r = [] \<Longrightarrow> json_decode s = Some v"
  using json_decode_fuel [of n s v r] by (simp add: json_decode_def del: scan_value.simps)

subsection \<open>Lists and dictionaries\<close>

lemma json_encode_canonical_dict:
  "sorted (map fst kvs) \<Longrightarrow>
   json_encode (PDict kvs) =
     CHR ''{'' # join '', '' (map (\<lambda>(k, v). encode_basestring_ascii k @ '': '' @ json_encode v) kvs) @ ''}''"
proof -
  assume "sorted (map fst kvs)"
  then have "sorted (map fst (map (\<lambda>(k, v). (k, json_encode v)) kvs))"
    by (simp add: comp_def case_prod_unfold)
  then have "sort_key fst (map (\<lambda>(k, v). (k, json_encode v)) kvs) = map (\<lambda>(k, v). (k, json_encode v)) kvs"
    by (rule sort_key_id_if_sorted)
  then show ?thesis
    by (simp add: comp_def case_prod_unfold)
qed

lemma skip_ws_nonws: "\<not> is_ws h \<Longrightarrow> skip_ws (h # t) = h # t"
  by (simp add: skip_ws_def)

lemma skip_ws_space: "skip_ws (CHR '' '' # t) = skip_ws t"
  by (simp add: skip_ws_def is_ws_def)

lemma json_encode_head:
  assumes "canonical c"
  shows "\<exists>h t. json_encode c = h # t \<and> \<not> is_ws h \<and> h \<noteq> CHR '']'' \<and> h \<noteq> CHR ''}''"
proof (cases c)
  case (PStr s)
  then show ?thesis by (simp add: encode_basestring_ascii_def dquote_def is_ws_def)
next
  case (PInt i)
  then show ?thesis
    using str_int_head [of i] by (auto simp: is_ws_def is_digit_def)
next
  case (PList vs)
  then show ?thesis by (simp add: is_ws_def)
next
  case (PDict kvs)
  then show ?thesis by (simp add: is_ws_def)
next
  case (POid h)
  with assms show ?thesis by simp
qed

lemma delim_simps [simp]:
  "delim []" "delim (CHR '','' # t)" "delim (CHR '']'' # t)" "delim (CHR ''}'' # t)"
  by (simp_all add: delim_def)

lemma scan_array_elems:
  assumes elems: "\<And>c rest n. c \<in> set cs \<Longrightarrow> delim rest \<Longrightarrow> length (json_encode c) \<le> n \<Longrightarrow>
                    scan_value n (json_encode c @ rest) = Some (c, rest)"
    and canon: "list_all canonical cs" and ne: "cs \<noteq> []"
    and fuel: "Suc (length (join '', '' (map json_encode cs))) \<le> n"
  shows "scan_array n (join '', '' (map json_encode cs) @ CHR '']'' # rest) = Some (cs, rest)"
  using assms
proof (induction cs arbitrary: n)
  case Nil
  then show ?case by simp
next
  case (Cons c cs)
  from Cons.prems(4) obtain n' where n: "n = Suc n'" by (cases n) auto
  show ?case
  proof (cases cs)
    case Nil
    have "scan_value n' (json_encode c @ CHR '']'' # rest) = Some (c, CHR '']'' # rest)"
      using Cons.prems(4) n Nil by (intro Cons.prems(1)) simp_all
    then show ?thesis
      using Nil n by (simp add: skip_ws_nonws is_ws_def)
  next
    case (Cons c' cs')
    let ?tail = "join '', '' (map json_encode cs) @ CHR '']'' # rest"
    have v: "scan_value n' (json_encode c @ CHR '','' # CHR '' '' # ?tail)
               = Some (c, CHR '','' # CHR '' '' # ?tail)"
      using Cons.prems(4) n Cons by (intro Cons.prems(1)) simp_all
    have "canonical c'" using Cons.prems(2) Cons by simp
    then obtain h t where h: "json_encode c' = h # t" "\<not> is_ws h"
      using json_encode_head by blast
    then have "\<exists>t'. ?tail = h # t'"
      using Cons by (cases cs') simp_all
    then have sk: "skip_ws (CHR '' '' # ?tail) = ?tail"
      using h(2) by (auto simp: skip_ws_space skip_ws_nonws)
    have ih: "scan_array n' ?tail = Some (cs, rest)"
    proof (rule Cons.IH)
      show "\<And>c rest n. c \<in> set cs \<Longrightarrow> delim rest \<Longrightarrow> length (json_encode c) \<le> n \<Longrightarrow>
                    scan_value n (json_encode c @ rest) = Some (c, rest)"
        using Cons.prems(1) by simp
      show "list_all canonical cs" using Cons.prems(2) by simp
      show "cs \<noteq> []" using Cons by simp
      show "Suc (length (join '', '' (map json_encode cs))) \<le> n'"
        using Cons.prems(4) n Cons by simp
    qed
    have "join '', '' (map json_encode (c # cs)) @ CHR '']'' # rest
            = json_encode c @ CHR '','' # CHR '' '' # ?tail"
      using Cons by simp
    then show ?thesis
      using v sk ih n by (simp add: skip_ws_nonws is_ws_def)
  qed
qed

lemma scan_object_members:
  assumes elems: "\<And>k c rest n. (k, c) \<in> set kvs \<Longrightarrow> delim rest \<Longrightarrow> length (json_encode c) \<le> n \<Longrightarrow>
                    scan_value n (json_encode c @ rest) = Some (c, rest)"
    and canon: "list_all (\<lambda>(k, v). canonical v) kvs" and ne: "kvs \<noteq> []"
    and fuel: "Suc (length (join '', '' (map (\<lambda>(k, v). encode_basestring_ascii k @ '': '' @ json_encode v) kvs))) \<le> n"
  shows "scan_object n (join '', '' (map (\<lambda>(k, v). encode_basestring_ascii k @ '': '' @ json_encode v) kvs)
                          @ CHR ''}'' # rest) = Some (kvs, rest)"
  using assms
proof (induction kvs arbitrary: n)
  case Nil
  then show ?case by simp
next
  case (Cons kv kvs)
  obtain k c where kv: "kv = (k, c)" by (cases kv)
  let ?item = "\<lambda>(k, v). encode_basestring_ascii k @ '': '' @ json_encode v"
  from Cons.prems(4) obtain n' where n: "n = Suc n'" by (cases n) auto
  have cc: "canonical c" using Cons.prems(2) kv by simp
  then obtain h t where h: "json_encode c = h # t" "\<not> is_ws h"
    using json_encode_head by blast
  have key: "\<And>r. scanstring (concat (map escape_char k) @ dquote # r) = Some (k, r)"
    by (rule scanstring_body)
  show ?case
  proof (cases kvs)
    case Nil
    have v: "scan_value n' (json_encode c @ CHR ''}'' # rest) = Some (c, CHR ''}'' # rest)"
      using Cons.prems(4) n Nil kv
      by (intro Cons.prems(1) [of k]) (simp_all add: encode_basestring_ascii_def)
    have "scan_object (Suc n') (encode_basestring_ascii k @ CHR '':'' # CHR '' '' # json_encode c @ CHR ''}'' # rest)
            = Some ([(k, c)], rest)"
      using v h
      by (simp add: encode_basestring_ascii_def key [unfolded dquote_def] skip_ws_nonws skip_ws_space
            is_ws_def dquote_def)
    then show ?thesis
      using Nil n kv by (simp del: scan_object.simps)
  next
    case (Cons kv' kvs')
    obtain k' c' where kv': "kv' = (k', c')" by (cases kv')
    let ?tail = "join '', '' (map ?item kvs) @ CHR ''}'' # rest"
    have v: "scan_value n' (json_encode c @ CHR '','' # CHR '' '' # ?tail)
               = Some (c, CHR '','' # CHR '' '' # ?tail)"
      using Cons.prems(4) n Cons kv
      by (intro Cons.prems(1) [of k]) (simp_all add: encode_basestring_ascii_def)
    have "\<exists>t'. ?tail = dquote # t'"
      using Cons kv' by (cases kvs') (simp_all add: encode_basestring_ascii_def)
    then have sk: "skip_ws (CHR '' '' # ?tail) = ?tail"
      by (auto simp: skip_ws_space skip_ws_nonws is_ws_def dquote_def)
    have ih: "scan_object n' ?tail = Some (kvs, rest)"
    proof (rule Cons.IH)
      fix k0 c0 rest0 n0
      assume "(k0, c0) \<in> set kvs" "delim rest0" "length (json_encode c0) \<le> n0"
      then show "scan_value n0 (json_encode c0 @ rest0) = Some (c0, rest0)"
        using Cons.prems(1) [of k0 c0 rest0 n0] by simp
    next
      show "list_all (\<lambda>(k, v). canonical v) kvs" using Cons.prems(2) by simp
      show "kvs \<noteq> []" using Cons by simp
      show "Suc (length (join '', '' (map ?item kvs))) \<le> n'"
        using Cons.prems(4) n Cons kv by simp
    qed
    have "scan_object (Suc n') (encode_basestring_ascii k @ CHR '':'' # CHR '' '' # json_encode c
                                  @ CHR '','' # CHR '' '' # ?tail)
            = Some ((k, c) # kvs, rest)"
      using v h sk ih
      by (simp add: encode_basestring_ascii_def key [unfolded dquote_def] skip_ws_nonws skip_ws_space
            is_ws_def dquote_def)
    moreover have "join '', '' (map ?item (kv # kvs)) @ CHR ''}'' # rest
            = encode_basestring_ascii k @ CHR '':'' # CHR '' '' # json_encode c
                @ CHR '','' # CHR '' '' # ?tail"
      using Cons kv by simp
    ultimately show ?thesis
      using n kv by (simp del: scan_object.simps)
  qed
qed

lemma dict_set_fresh: "k \<notin> fst ` set d \<Longrightarrow> dict_set d k v = d @ [(k, v)]"
  by (induction d) auto

lemma foldl_dict_set_distinct:
  "distinct (map fst (acc @ kvs)) \<Longrightarrow> foldl (\<lambda>d (k, v). dict_set d k v) acc kvs = acc @ kvs"
proof (induction kvs arbitrary: acc)
  case Nil
  then show ?case by simp
next
  case (Cons kv kvs)
  obtain k v where kv: "kv = (k, v)" by (cases kv)
  from Cons.prems kv have "k \<notin> fst ` set acc" by auto
  then have "dict_set acc k v = acc @ [(k, v)]" by (rule dict_set_fresh)
  moreover have "distinct (map fst ((acc @ [(k, v)]) @ kvs))"
    using Cons.prems kv by simp
  ultimately show ?case
    using Cons.IH [of "acc @ [(k, v)]"] kv by simp
qed

lemma dict_of_pairs_distinct: "distinct (map fst kvs) \<Longrightarrow> dict_of_pairs kvs = kvs"
  using foldl_dict_set_distinct [of "[]" kvs] by (simp add: dict_of_pairs_def)

lemma delim_int: "delim rest \<Longrightarrow> scan_int (str_int i @ rest) = Some (i, rest)"
  by (rule scan_int_str_int)

lemma scan_value_canonical:
  "canonical c \<Longrightarrow> delim rest \<Longrightarrow> length (json_encode c) \<le> n \<Longrightarrow>
   scan_value n (json_encode c @ rest) = Some (c, rest)"
proof (induction c arbitrary: rest n)
  case (PStr s)
  then obtain n' where n: "n = Suc n'"
    by (cases n) (auto simp: encode_basestring_ascii_def)
  show ?case
    unfolding n
    by (simp add: encode_basestring_ascii_def scanstring_body)
next
  case (PInt i)
  obtain h t where h: "str_int i = h # t" "h = CHR ''-'' \<or> is_digit h"
    using str_int_head by blast
  with PInt obtain n' where n: "n = Suc n'"
    by (cases n) auto
  have nq: "h \<noteq> dquote" "h \<noteq> CHR ''[''" "h \<noteq> CHR ''{''"
    using h(2) by (auto simp: dquote_def is_digit_def)
  have "scan_value (Suc n') ((h # t) @ rest) = map_option (apfst PInt) (scan_int ((h # t) @ rest))"
    using nq by simp
  then show ?case
    using scan_int_str_int [OF PInt(2), of i] by (simp add: n h(1) [symmetric])
next
  case (PList cs)
  from PList(4) obtain n' where n: "n = Suc n'"
    by (cases n) auto
  show ?case
  proof (cases cs)
    case Nil
    then show ?thesis
      unfolding n by (simp add: dquote_def skip_ws_nonws is_ws_def)
  next
    case (Cons c0 cs0)
    let ?body = "join '', '' (map json_encode cs)"
    have "canonical c0" using PList(2) Cons by simp
    then obtain h t where h: "json_encode c0 = h # t" "\<not> is_ws h" "h \<noteq> CHR '']''"
      using json_encode_head by blast
    then obtain t' where b: "?body @ CHR '']'' # rest = h # t'"
      using Cons by (cases cs0) simp_all
    have arr: "scan_array n' (?body @ CHR '']'' # rest) = Some (cs, rest)"
    proof (rule scan_array_elems)
      fix c r m
      assume "c \<in> set cs" "delim r" "length (json_encode c) \<le> m"
      then show "scan_value m (json_encode c @ r) = Some (c, r)"
        using PList(1) [of c r m] PList(2) by (simp add: list_all_iff)
    next
      show "list_all canonical cs" using PList(2) by simp
      show "cs \<noteq> []" using Cons by simp
      show "Suc (length ?body) \<le> n'" using PList(4) n by simp
    qed
    have "scan_value (Suc n') (CHR ''['' # ?body @ CHR '']'' # rest) = Some (PList cs, rest)"
      using arr h(2,3) unfolding b
      by (simp add: dquote_def skip_ws_nonws)
    then show ?thesis
      unfolding n by simp
  qed
next
  case (PDict kvs)
  from PDict(2) have srt: "sorted (map fst kvs)" and dst: "distinct (map fst kvs)"
    and can: "list_all (\<lambda>(k, v). canonical v) kvs"
    by simp_all
  let ?item = "\<lambda>(k, v). encode_basestring_ascii k @ '': '' @ json_encode v"
  let ?body = "join '', '' (map ?item kvs)"
  have enc: "json_encode (PDict kvs) = CHR ''{'' # ?body @ ''}''"
    using srt by (rule json_encode_canonical_dict)
  from PDict(4) obtain n' where n: "n = Suc n'"
    unfolding enc by (cases n) auto
  show ?case
  proof (cases kvs)
    case Nil
    then show ?thesis
      unfolding n enc by (simp add: dquote_def skip_ws_nonws is_ws_def dict_of_pairs_def)
  next
    case (Cons kv0 kvs0)
    obtain t' where b: "?body @ CHR ''}'' # rest = dquote # t'"
      using Cons by (cases kv0; cases kvs0) (simp_all add: encode_basestring_ascii_def)
    have obj: "scan_object n' (?body @ CHR ''}'' # rest) = Some (kvs, rest)"
    proof (rule scan_object_members)
      fix k c r m
      assume "(k, c) \<in> set kvs" "delim r" "length (json_encode c) \<le> m"
      then show "scan_value m (json_encode c @ r) = Some (c, r)"
        using PDict(1) [of "(k, c)" c r m] can by (auto simp: list_all_iff)
    next
      show "list_all (\<lambda>(k, v). canonical v) kvs" by (rule can)
      show "kvs \<noteq> []" using Cons by simp
      show "Suc (length ?body) \<le> n'" using PDict(4) n unfolding enc by simp
    qed
    have "scan_value (Suc n') (CHR ''{'' # ?body @ CHR ''}'' # rest) = Some (PDict kvs, rest)"
      using obj dict_of_pairs_distinct [OF dst] unfolding b
      by (simp add: dquote_def skip_ws_nonws is_ws_def)
    then show ?thesis
      unfolding n enc by simp
  qed
next
  case (POid h)
  then show ?case by simp
qed

lemma json_decode_canonical:
  assumes "canonical c"
  shows "json_decode (json_encode c) = Some c"
proof -
  obtain h t where h: "json_encode c = h # t" "\<not> is_ws h"
    using json_encode_head [OF assms] by blast
  have "scan_value (Suc (length (json_encode c))) (json_encode c @ []) = Some (c, [])"
    using assms by (intro scan_value_canonical) simp_all
  then show ?thesis
    using h by (simp add: json_decode_def skip_ws_nonws skip_ws_def del: scan_value.simps)
qed

subsection \<open>Sorted keys\<close>

lemma insort_key_map_fst:
  "(\<And>x. fst (g x) = fst x) \<Longrightarrow>
   map g (insort_key fst x xs) = insort_key fst (g x) (map g xs)"
  by (induction xs) simp_all

lemma sort_key_map_fst:
  "(\<And>x. fst (g x) = fst x) \<Longrightarrow> map g (sort_key fst xs) = sort_key fst (map g xs)"
  by (induction xs) (simp_all add: insort_key_map_fst)

lemma sort_key_idem: "sort_key f (sort_key f xs) = sort_key f xs"
  by (rule sort_key_id_if_sorted) simp

lemma json_encode_canon: "json_encode (canon v) = json_encode v"
proof (induction v)
  case (PList vs)
  then show ?case by (simp add: comp_def cong: map_cong)
next
  case (PDict kvs)
  have step: "map (\<lambda>(k, v). (k, json_encode v)) (sort_key fst (map (\<lambda>(k, v). (k, canon v)) kvs))
        = sort_key fst (map (\<lambda>(k, v). (k, json_encode v)) (map (\<lambda>(k, v). (k, canon v)) kvs))"
    by (rule sort_key_map_fst) (simp add: case_prod_unfold)
  have inner: "map (\<lambda>(k, v). (k, json_encode v)) (map (\<lambda>(k, v). (k, canon v)) kvs)
        = map (\<lambda>(k, v). (k, json_encode v)) kvs"
    using PDict by (auto simp: case_prod_unfold intro!: map_cong [OF refl] elim: snds.cases)
  show ?case
    by (simp add: step inner sort_key_idem del: map_map)
qed (simp_all)

lemma map_fst_canon_items: "map fst (map (\<lambda>(k, v). (k, canon v)) kvs) = map fst kvs"
  by (simp add: comp_def case_prod_unfold)

lemma distinct_map_sort_key:
  "distinct (map f (sort_key g xs)) = distinct (map f xs)"
  by (simp add: distinct_map)

lemma canonical_canon: "wf_pyval v \<Longrightarrow> serializable v \<Longrightarrow> canonical (canon v)"
proof (induction v)
  case (PList vs)
  then show ?case by (auto simp: list_all_iff)
next
  case (PDict kvs)
  let ?xs = "map (\<lambda>(k, v). (k, canon v)) kvs"
  have "sorted (map fst (sort_key fst ?xs))" by simp
  moreover have "distinct (map fst (sort_key fst ?xs))"
    using PDict(2) by (simp add: distinct_map_sort_key map_fst_canon_items del: map_map)
  moreover have "list_all (\<lambda>(k, v). canonical v) (sort_key fst ?xs)"
    using PDict by (fastforce simp: list_all_iff elim: snds.cases)
  ultimately show ?case by simp
qed (simp_all)

lemma canon_idem: "canon (canon v) = canon v"
proof (induction v)
  case (PList vs)
  then show ?case by (simp add: comp_def cong: map_cong)
next
  case (PDict kvs)
  have step: "map (\<lambda>(k, v). (k, canon v)) (sort_key fst (map (\<lambda>(k, v). (k, canon v)) kvs))
        = sort_key fst (map (\<lambda>(k, v). (k, canon v)) (map (\<lambda>(k, v). (k, canon v)) kvs))"
    by (rule sort_key_map_fst) (simp add: case_prod_unfold)
  have inner: "map (\<lambda>(k, v). (k, canon v)) (map (\<lambda>(k, v). (k, canon v)) kvs)
        = map (\<lambda>(k, v). (k, canon v)) kvs"
    using PDict by (auto simp: case_prod_unfold intro!: map_cong [OF refl] elim: snds.cases)
  show ?case
    by (simp add: step inner sort_key_idem del: map_map)
qed (simp_all)

lemma json_roundtrip:
  assumes "wf_pyval v" and "serializable v"
  shows "json_dumps v = Inr (json_encode v)" and "json_loads (json_encode v) = Inr (canon v)"
proof -
  show "json_dumps v = Inr (json_encode v)"
    using assms(2) by (simp add: json_dumps_def)
  have "json_decode (json_encode (canon v)) = Some (canon v)"
    using assms by (intro json_decode_canonical canonical_canon)
  then show "json_loads (json_encode v) = Inr (canon v)"
    by (simp add: json_loads_def json_encode_canon)
qed

lemma sorted_assoc_eq:
  assumes "distinct (map fst A)" and "distinct (map fst B)"
  shows "(sort_key fst A = sort_key fst B) = (set A = set B)"
proof
  assume "sort_key fst A = sort_key fst B"
  then have "set (sort_key fst A) = set (sort_key fst B)" by simp
  then show "set A = set B" by simp
next
  assume eq: "set A = set B"
  have inj: "inj_on fst (set A)"
    using assms(1) by (simp add: distinct_map)
  show "sort_key fst A = sort_key fst B"
  proof (rule map_sorted_distinct_set_unique [where f = fst])
    show "inj_on fst (set (sort_key fst A) \<union> set (sort_key fst B))"
      using inj eq by simp
    show "sorted (map fst (sort_key fst A))" "sorted (map fst (sort_key fst B))" by simp_all
    show "distinct (map fst (sort_key fst A))" using assms(1) by (simp add: distinct_map)
    show "distinct (map fst (sort_key fst B))" using assms(2) by (simp add: distinct_map)
    show "set (sort_key fst A) = set (sort_key fst B)" using eq by simp
  qed
qed

lemma set_eq_iff_lookup:
  assumes "distinct (map fst A)" and "distinct (map fst B)"
  shows "(set A = set B) = (length A = length B \<and> (\<forall>(k, v)\<in>set A. map_of B k = Some v))"
proof
  assume eq: "set A = set B"
  have dA: "distinct A" and dB: "distinct B"
    using assms by (simp_all add: distinct_map)
  have "length A = card (set A)" "length B = card (set B)"
    using dA dB by (simp_all add: distinct_card)
  with eq have "length A = length B" by simp
  moreover have "\<forall>(k, v)\<in>set A. map_of B k = Some v"
    using eq assms(2) by auto
  ultimately show "length A = length B \<and> (\<forall>(k, v)\<in>set A. map_of B k = Some v)" by simp
next
  assume h: "length A = length B \<and> (\<forall>(k, v)\<in>set A. map_of B k = Some v)"
  have dA: "distinct A" and dB: "distinct B"
    using assms by (simp_all add: distinct_map)
  have sub: "set A \<subseteq> set B"
    using h by (auto dest: map_of_SomeD)
  have "card (set A) = card (set B)"
    using h dA dB by (simp add: distinct_card)
  with sub show "set A = set B"
    by (simp add: card_subset_eq)
qed

lemma map_of_canon_items:
  "map_of (map (\<lambda>(k, v). (k, canon v)) ys) k = map_option canon (map_of ys k)"
  by (induction ys) auto

lemma wf_dict_valueD:
  "wf_pyval (PDict ys) \<Longrightarrow> map_of ys k = Some w \<Longrightarrow> wf_pyval w"
  by (auto simp: list_all_iff dest!: map_of_SomeD)

lemma wf_dict_itemD:
  "wf_pyval (PDict xs) \<Longrightarrow> (k, v) \<in> set xs \<Longrightarrow> wf_pyval v"
  by (auto simp: list_all_iff)

lemma list_all2_canon:
  assumes "\<And>x y. x \<in> set xs \<Longrightarrow> y \<in> set ys \<Longrightarrow> py_eq x y = (canon x = canon y)"
  shows "list_all2 py_eq xs ys = (map canon xs = map canon ys)"
  using assms
proof (induction xs arbitrary: ys)
  case Nil
  then show ?case by auto
next
  case (Cons x xs)
  show ?case
  proof (cases ys)
    case Nil
    then show ?thesis by simp
  next
    case (Cons y ys')
    have "list_all2 py_eq xs ys' = (map canon xs = map canon ys')"
      using Cons.prems Cons by (intro Cons.IH) simp_all
    moreover have "py_eq x y = (canon x = canon y)"
      using Cons.prems Cons by simp
    ultimately show ?thesis using Cons by simp
  qed
qed

theorem py_eq_canon:
  "wf_pyval a \<Longrightarrow> wf_pyval b \<Longrightarrow> py_eq a b = (canon a = canon b)"
proof (induction a arbitrary: b)
  case (PStr s)
  then show ?case by (cases b) auto
next
  case (PInt i)
  then show ?case by (cases b) auto
next
  case (POid h)
  then show ?case by (cases b) auto
next
  case (PList xs)
  show ?case
  proof (cases b)
    case (PList ys)
    have "list_all2 py_eq xs ys = (map canon xs = map canon ys)"
    proof (rule list_all2_canon)
      fix x y assume "x \<in> set xs" "y \<in> set ys"
      then show "py_eq x y = (canon x = canon y)"
        using PList.IH [of x y] PList.prems \<open>b = PList ys\<close> by (simp add: list_all_iff)
    qed
    then show ?thesis using PList by simp
  qed simp_all
next
  case (PDict xs)
  show ?case
  proof (cases b)
    case (PDict ys)
    let ?A = "map (\<lambda>(k, v). (k, canon v)) xs"
    let ?B = "map (\<lambda>(k, v). (k, canon v)) ys"
    have dA: "distinct (map fst ?A)" and dB: "distinct (map fst ?B)"
      using PDict.prems PDict by (simp_all add: map_fst_canon_items del: map_map)
    have item: "(case map_of ys k of None \<Rightarrow> False | Some w \<Rightarrow> py_eq v w)
                  = (map_of ?B k = Some (canon v))" if kv: "(k, v) \<in> set xs" for k v
    proof (cases "map_of ys k")
      case None
      then show ?thesis by (simp add: map_of_canon_items)
    next
      case (Some w)
      have "wf_pyval v" using PDict.prems(1) kv by (rule wf_dict_itemD)
      moreover have "wf_pyval w" using PDict.prems(2) Some unfolding PDict by (rule wf_dict_valueD)
      ultimately have "py_eq v w = (canon v = canon w)"
        using PDict.IH [of "(k, v)" v w] kv by simp
      with Some show ?thesis by (auto simp: map_of_canon_items)
    qed
    have "list_all (\<lambda>(k, v). case map_of ys k of None \<Rightarrow> False | Some w \<Rightarrow> py_eq v w) xs
            = (\<forall>(k, v)\<in>set ?A. map_of ?B k = Some v)"
      using item by (auto simp: list_all_iff)
    then have "py_eq (PDict xs) (PDict ys)
           = (length ?A = length ?B \<and> (\<forall>(k, v)\<in>set ?A. map_of ?B k = Some v))"
      by simp
    also have "\<dots> = (set ?A = set ?B)"
      using set_eq_iff_lookup [OF dA dB] by simp
    also have "\<dots> = (sort_key fst ?A = sort_key fst ?B)"
      using sorted_assoc_eq [OF dA dB] by simp
    finally show ?thesis using PDict by simp
  qed simp_all
qed

lemma wf_canon: "wf_pyval v \<Longrightarrow> wf_pyval (canon v)"
proof (induction v)
  case (PList vs)
  then show ?case by (auto simp: list_all_iff)
next
  case (PDict kvs)
  let ?xs = "map (\<lambda>(k, v). (k, canon v)) kvs"
  have "distinct (map fst (sort_key fst ?xs))"
    using PDict(2) by (simp add: distinct_map_sort_key map_fst_canon_items del: map_map)
  moreover have "list_all (\<lambda>(k, v). wf_pyval v) (sort_key fst ?xs)"
    using PDict by (fastforce simp: list_all_iff elim: snds.cases)
  ultimately show ?case by simp
qed (simp_all)

lemma serializable_canon: "serializable (canon v) = serializable v"
proof (induction v)
  case (PList vs)
  then show ?case by (auto simp: list_all_iff)
next
  case (PDict kvs)
  then show ?case by (fastforce simp: list_all_iff elim: snds.cases)
qed (simp_all)

lemma py_eq_json_dumps:
  assumes "wf_pyval d1" and "wf_pyval d2" and "py_eq d1 d2"
  shows "json_dumps d1 = json_dumps d2"
proof -
  have c: "canon d1 = canon d2"
    using assms by (simp add: py_eq_canon)
  have "json_encode d1 = json_encode d2"
    using json_encode_canon [of d1] json_encode_canon [of d2] c by simp
  moreover have "serializable d1 = serializable d2"
    using serializable_canon [of d1] serializable_canon [of d2] c by simp
  ultimately show ?thesis by (simp add: json_dumps_def)
qed

lemma py_eq_canon_self: "wf_pyval v \<Longrightarrow> py_eq (canon v) v"
  by (simp add: py_eq_canon wf_canon canon_idem)

section \<open>Serialized cache entries\<close>

text \<open>
  C6. For every document (a dictionary value with each key once and no object id left in
  it) the text written by \<^verbatim>\<open>json.dumps(doc, sort_keys=True)\<close> decodes with
  \<^verbatim>\<open>json.loads\<close> to the document with its keys in sorted order, which is equal to the
  document as Python compares dictionaries, without regard to the order of keys. Two
  documents that are equal in this sense have the same serialization, character by
  character.
\<close>

theorem serialization_round_trip:
  "(wf_pyval doc \<and> serializable doc \<longrightarrow>
      json_dumps doc = Inr (json_encode doc)
      \<and> json_loads (json_encode doc) = Inr (canon doc)
      \<and> py_eq (canon doc) doc \<and> py_eq doc (canon doc))
   \<and> (wf_pyval d1 \<and> wf_pyval d2 \<and> py_eq d1 d2 \<longrightarrow> json_dumps d1 = json_dumps d2)"
proof (intro conjI impI)
  assume h: "wf_pyval doc \<and> serializable doc"
  then show "json_dumps doc = Inr (json_encode doc)"
    and "json_loads (json_encode doc) = Inr (canon doc)"
    by (simp_all add: json_roundtrip)
  show "py_eq (canon doc) doc"
    using h by (simp add: py_eq_canon_self)
  show "py_eq doc (canon doc)"
    using h by (simp add: py_eq_canon wf_canon canon_idem)
next
  assume "wf_pyval d1 \<and> wf_pyval d2 \<and> py_eq d1 d2"
  then show "json_dumps d1 = json_dumps d2"
    by (simp add: py_eq_json_dumps)
qed

theorem serialization_round_trip_witness:
  "wf_pyval (PDict [(''id'', PStr ''650000000000000000000001''),
                    (''keys'', PList [PDict [(''status'', PStr ''valid''), (''key'', PStr ''a\"b'')]]),
                    (''_id'', PStr ''650000000000000000000002''), (''n'', PInt (- 12))])
   \<and> serializable (PDict [(''id'', PStr ''650000000000000000000001''),
                    (''keys'', PList [PDict [(''status'', PStr ''valid''), (''key'', PStr ''a\"b'')]]),
                    (''_id'', PStr ''650000000000000000000002''), (''n'', PInt (- 12))])
   \<and> json_loads (json_encode (PDict [(''id'', PStr ''650000000000000000000001''),
                    (''keys'', PList [PDict [(''status'', PStr ''valid''), (''key'', PStr ''a\"b'')]]),
                    (''_id'', PStr ''650000000000000000000002''), (''n'', PInt (- 12))]))
       = Inr (PDict [(''_id'', PStr ''650000000000000000000002''),
                     (''id'', PStr ''650000000000000000000001''),
                     (''keys'', PList [PDict [(''key'', PStr ''a\"b''), (''status'', PStr ''valid'')]]),
                     (''n'', PInt (- 12))])
   \<and> wf_pyval (PDict [(''_id'', PStr ''650000000000000000000002''), (''n'', PInt (- 12)),
                    (''keys'', PList [PDict [(''key'', PStr ''a\"b''), (''status'', PStr ''valid'')]]),
                    (''id'', PStr ''650000000000000000000001'')])
   \<and> py_eq (PDict [(''id'', PStr ''650000000000000000000001''),
                    (''keys'', PList [PDict [(''status'', PStr ''valid''), (''key'', PStr ''a\"b'')]]),
                    (''_id'', PStr ''650000000000000000000002''), (''n'', PInt (- 12))])
            (PDict [(''_id'', PStr ''650000000000000000000002''), (''n'', PInt (- 12)),
                    (''keys'', PList [PDict [(''key'', PStr ''a\"b''), (''status'', PStr ''valid'')]]),
                    (''id'', PStr ''650000000000000000000001'')])
   \<and> json_dumps (PDict [(''id'', PStr ''650000000000000000000001''),
                    (''keys'', PList [PDict [(''status'', PStr ''valid''), (''key'', PStr ''a\"b'')]]),
                    (''_id'', PStr ''650000000000000000000002''), (''n'', PInt (- 12))])
       = json_dumps (PDict [(''_id'', PStr ''650000000000000000000002''), (''n'', PInt (- 12)),
                    (''keys'', PList [PDict [(''key'', PStr ''a\"b''), (''status'', PStr ''valid'')]]),
                    (''id'', PStr ''650000000000000000000001'')])"
proof -
  let ?d1 = "PDict [(''id'', PStr ''650000000000000000000001''),
                    (''keys'', PList [PDict [(''status'', PStr ''valid''), (''key'', PStr ''a\"b'')]]),
                    (''_id'', PStr ''650000000000000000000002''), (''n'', PInt (- 12))]"
  let ?d2 = "PDict [(''_id'', PStr ''650000000000000000000002''), (''n'', PInt (- 12)),
                    (''keys'', PList [PDict [(''key'', PStr ''a\"b''), (''status'', PStr ''valid'')]]),
                    (''id'', PStr ''650000000000000000000001'')]"
  have w1: "wf_pyval ?d1" by code_simp
  have s1: "serializable ?d1" by code_simp
  have w2: "wf_pyval ?d2" by code_simp
  have e: "py_eq ?d1 ?d2" by code_simp
  have c: "canon ?d1 = PDict [(''_id'', PStr ''650000000000000000000002''),
                     (''id'', PStr ''650000000000000000000001''),
                     (''keys'', PList [PDict [(''key'', PStr ''a\"b''), (''status'', PStr ''valid'')]]),
                     (''n'', PInt (- 12))]"
    by code_simp
  from serialization_round_trip [of ?d1 ?d1 ?d2] w1 s1 w2 e
  have "json_loads (json_encode ?d1) = Inr (canon ?d1)" and "json_dumps ?d1 = json_dumps ?d2"
    by blast+
  with w1 s1 w2 e c show ?thesis by simp
qed

section \<open>Lemmas on the scan of a cache list\<close>

lemma first_match_find:
  "first_match x es = Inr r \<Longrightarrow> map_option fst r = find (has_id x) es"
  by (induction es) (auto simp: has_id_def py_get_def split: sum.splits pyval.splits if_splits)

lemma first_match_decoded:
  "first_match x es = Inr (Some (e, d)) \<Longrightarrow> json_loads e = Inr d \<and> has_id x e \<and> e \<in> set es"
  by (induction es) (auto simp: has_id_def py_get_def split: sum.splits pyval.splits if_splits)

lemma first_match_docs:
  "list_all is_doc_entry es \<Longrightarrow> \<exists>r. first_match x es = Inr r"
  by (induction es) (auto simp: is_doc_entry_def py_get_def split: sum.splits pyval.splits if_splits)

lemma first_match_prefix:
  "list_all is_doc_entry pre \<Longrightarrow> \<forall>e\<in>set pre. \<not> has_id x e \<Longrightarrow> first_match x (pre @ es) = first_match x es"
  by (induction pre) (auto simp: is_doc_entry_def has_id_def py_get_def split: sum.splits pyval.splits if_splits)

lemma first_match_hit:
  "json_loads e = Inr d \<Longrightarrow> has_id x e \<Longrightarrow> first_match x (e # es) = Inr (Some (e, d))"
  by (auto simp: has_id_def py_get_def split: sum.splits pyval.splits if_splits)

lemma count_list_le_filter:
  "P e \<Longrightarrow> count_list xs e \<le> length (filter P xs)"
  by (induction xs) auto

lemma count_removeAll:
  "P e \<Longrightarrow> length (filter P (removeAll e xs)) = length (filter P xs) - count_list xs e"
proof (induction xs)
  case Nil
  then show ?case by simp
next
  case (Cons x xs)
  from Cons.prems have "count_list xs e \<le> length (filter P xs)"
    by (rule count_list_le_filter)
  with Cons show ?case by auto
qed

lemma remove_old_entry_find:
  "remove_old_entry mongo_id es = Inr es' \<Longrightarrow>
     es' = (case find (has_id (PStr mongo_id)) es of None \<Rightarrow> es | Some e \<Rightarrow> removeAll e es)"
  unfolding remove_old_entry_def lrem0_def
  by (auto split: sum.splits option.splits dest!: first_match_find)

lemma find_has_id_count:
  "find (has_id (PStr m)) es = None \<Longrightarrow> count_id m es = 0"
  by (simp add: count_id_def find_None_iff filter_empty_conv)

lemma find_SomeD:
  "find P es = Some e \<Longrightarrow> P e \<and> e \<in> set es"
  by (induction es) (auto split: if_splits)

lemma distinct_filter_count:
  "distinct (filter P es) \<Longrightarrow> P e \<Longrightarrow> e \<in> set es \<Longrightarrow> count_list es e = 1"
  by (induction es) (auto simp: count_list_0_iff split: if_splits)

lemma first_match_step_hit:
  "has_id x a \<Longrightarrow>
   first_match x (a # es) = (case json_loads a of Inl err \<Rightarrow> Inl err | Inr d \<Rightarrow> Inr (Some (a, d)))"
  by (auto simp: has_id_def py_get_def split: sum.splits pyval.splits)

lemma first_match_step_miss:
  "\<not> has_id x a \<Longrightarrow> is_doc_entry a \<Longrightarrow> first_match x (a # es) = first_match x es"
  by (auto simp: has_id_def is_doc_entry_def py_get_def split: sum.splits pyval.splits)

lemma first_match_as_find:
  "list_all is_doc_entry (takeWhile (\<lambda>e. \<not> has_id x e) es) \<Longrightarrow>
   first_match x es =
     (case find (has_id x) es of
        None \<Rightarrow> Inr None
      | Some e \<Rightarrow> (case json_loads e of Inl err \<Rightarrow> Inl err | Inr d \<Rightarrow> Inr (Some (e, d))))"
proof (induction es)
  case Nil
  then show ?case by simp
next
  case (Cons a es)
  show ?case
  proof (cases "has_id x a")
    case True
    then show ?thesis by (simp add: first_match_step_hit del: first_match.simps)
  next
    case False
    with Cons.prems have "is_doc_entry a" and "list_all is_doc_entry (takeWhile (\<lambda>e. \<not> has_id x e) es)"
      by simp_all
    with False Cons.IH show ?thesis
      by (simp add: first_match_step_miss del: first_match.simps)
  qed
qed


lemma removeAll_remove1_distinct:
  "distinct (filter P es) \<Longrightarrow> P e \<Longrightarrow> removeAll e es = remove1 e es"
  by (induction es) (auto split: if_splits)

lemma remove_old_entry_without_old:
  "remove_old_entry mongo_id es = Inr es' \<Longrightarrow> es' = without_old mongo_id es"
  unfolding without_old_def by (rule remove_old_entry_find)

lemma without_old_distinct:
  "distinct (filter (has_id (PStr m)) es) \<Longrightarrow>
   without_old m es = (case find (has_id (PStr m)) es of None \<Rightarrow> es | Some e \<Rightarrow> remove1 e es)"
  by (auto simp: without_old_def split: option.splits
        dest!: find_SomeD intro: removeAll_remove1_distinct)

section \<open>What each route computes\<close>

lemma serializable_api_keys: "list_all serializable (map dict_api_key ks)"
  by (simp add: dict_api_key_def list_all_iff)

lemma json_dumps_api_doc: "json_dumps (PDict (api_doc m ks)) = Inr (api_json m ks)"
  by (simp add: json_dumps_def api_json_def api_doc_def serializable_api_keys)

lemma user_dict_final:
  "dict_set (dict_User u @ [(''_id'', POid h)]) ''_id'' (PStr h) = dict_User u @ [(''_id'', PStr h)]"
  by (simp add: dict_User_def)

lemma json_dumps_user_dict:
  "json_dumps (PDict (convert_object_ids (dict_User u @ [(''_id'', PStr h)]))) = Inr (user_json u h)"
  by (simp add: json_dumps_def user_json_def dict_User_def convert_object_ids_def)

lemma json_dumps_key_doc:
  "json_dumps (PDict (convert_object_ids (dict_key_doc d))) = Inr (key_doc_json d)"
  by (simp add: json_dumps_def key_doc_json_def dict_key_doc_def convert_object_ids_def api_doc_def
        serializable_api_keys)

lemma json_dumps_new_key_doc:
  "json_dumps (PDict (convert_object_ids (api_doc m ks @ [(''_id'', POid h)])))
     = Inr (key_doc_json \<lparr>key_oid = h, key_id = m, keys = ks\<rparr>)"
  by (simp add: json_dumps_def key_doc_json_def convert_object_ids_def api_doc_def
        serializable_api_keys)

lemma create_user_overflow:
  "\<not> bson_int (User_id u) \<Longrightarrow> create_user rnd ou ok u s = (Inl OverflowError, s)"
  by (simp add: create_user_def find_one_user_def)

lemma create_user_conflict:
  "bson_int (User_id u) \<Longrightarrow> find (\<lambda>d. User_id d = User_id u) (db_users s) = Some d \<Longrightarrow>
   create_user rnd ou ok u s = (Inl (HTTPException 400 ''User ID already exists''), s)"
  by (simp add: create_user_def find_one_user_def)

lemma create_user_ok:
  "bson_int (User_id u) \<Longrightarrow> find (\<lambda>d. User_id d = User_id u) (db_users s) = None \<Longrightarrow>
   create_user rnd ou ok u s =
     (Inr (PDict [(''message'', PStr ''User created''),
                  (''user'', PDict (dict_User u @ [(''_id'', PStr ou)])),
                  (''api_key'', PStr (generate_api_key rnd 20))]),
      s\<lparr>db_users := db_users s @ [User.extend u (user_doc.fields ou)],
        db_keys := db_keys s @ [\<lparr>key_oid = ok, key_id = ou, keys = [valid_key (generate_api_key rnd 20)]\<rparr>],
        users_list := removeAll (user_json u ou) (users_list s) @ [user_json u ou],
        api_keys_list := removeAll (api_json ou [valid_key (generate_api_key rnd 20)]) (api_keys_list s)
                          @ [api_json ou [valid_key (generate_api_key rnd 20)]]\<rparr>)"
  by (simp add: create_user_def find_one_user_def Let_def user_dict_final json_dumps_user_dict
        json_dumps_api_doc rpush_def lrem0_def)

lemma remove_api_key_no_doc:
  "find (\<lambda>d. key_id d = m) (db_keys s) = None \<Longrightarrow>
   remove_api_key m k s = (Inl (HTTPException 404 ''API key document not found''), s)"
  by (simp add: remove_api_key_def)

lemma remove_api_key_no_key:
  "find (\<lambda>d. key_id d = m) (db_keys s) = Some d \<Longrightarrow> \<forall>x\<in>set (keys d). key x \<noteq> k \<Longrightarrow>
   remove_api_key m k s = (Inl (HTTPException 404 ''API key not found''), s)"
  by (simp add: remove_api_key_def Let_def)

lemma filter_length_neq:
  "(length (filter P xs) \<noteq> length xs) = (\<exists>x\<in>set xs. \<not> P x)"
  by (metis filter_id_conv length_filter_less less_irrefl_nat)

lemma remove_api_key_found:
  assumes "find (\<lambda>d. key_id d = m) (db_keys s) = Some d" and "\<exists>x\<in>set (keys d). key x = k"
  shows "remove_api_key m k s =
     (case remove_old_entry m (api_keys_list s) of
        Inl e \<Rightarrow> (Inl e, s\<lparr>db_keys := update_one_keys m (filter (\<lambda>x. key x \<noteq> k) (keys d)) (db_keys s)\<rparr>)
      | Inr es \<Rightarrow>
          (Inr (PDict [(''message'', PStr ''API key removed''), (''removed_key'', PStr k)]),
           s\<lparr>db_keys := update_one_keys m (filter (\<lambda>x. key x \<noteq> k) (keys d)) (db_keys s),
             api_keys_list := es @ [api_json m (filter (\<lambda>x. key x \<noteq> k) (keys d))]\<rparr>))"
proof -
  have "length (filter (\<lambda>x. key x \<noteq> k) (keys d)) \<noteq> length (keys d)"
    using assms(2) by (simp add: filter_length_neq)
  then show ?thesis
    using assms(1)
    by (simp add: remove_api_key_def Let_def json_dumps_api_doc rpush_def split: sum.splits)
qed

lemma create_api_key_invalid:
  "ObjectId m = Inl e \<Longrightarrow> create_api_key rnd ok m s = (Inl e, s)"
  by (simp add: create_api_key_def)

lemma create_api_key_no_user:
  "ObjectId m = Inr oid \<Longrightarrow> find (\<lambda>d. user_oid d = oid) (db_users s) = None \<Longrightarrow>
   create_api_key rnd ok m s = (Inl (HTTPException 404 ''User not found''), s)"
  by (simp add: create_api_key_def)

lemma create_api_key_insert:
  assumes "ObjectId m = Inr oid" and "find (\<lambda>d. user_oid d = oid) (db_users s) = Some u"
    and "find (\<lambda>d. key_id d = m) (db_keys s) = None"
  shows "create_api_key rnd ok m s =
     (let d' = \<lparr>key_oid = ok, key_id = m, keys = [valid_key (generate_api_key rnd 20)]\<rparr>;
          s1 = s\<lparr>db_keys := db_keys s @ [d']\<rparr>
      in case remove_old_entry m (api_keys_list s) of
           Inl e \<Rightarrow> (Inl e, s1)
         | Inr es \<Rightarrow>
             (Inr (PDict [(''message'', PStr ''New API key created''),
                          (''new_key'', PStr (generate_api_key rnd 20))]),
              s1\<lparr>api_keys_list := es @ [key_doc_json d']\<rparr>))"
  using assms
  by (simp add: create_api_key_def Let_def json_dumps_new_key_doc rpush_def split: sum.splits)

lemma create_api_key_append:
  assumes "ObjectId m = Inr oid" and "find (\<lambda>d. user_oid d = oid) (db_users s) = Some u"
    and "find (\<lambda>d. key_id d = m) (db_keys s) = Some d"
  shows "create_api_key rnd ok m s =
     (let d' = d\<lparr>keys := keys d @ [valid_key (generate_api_key rnd 20)]\<rparr>;
          s1 = s\<lparr>db_keys := update_one_keys m (keys d') (db_keys s)\<rparr>
      in case remove_old_entry m (api_keys_list s) of
           Inl e \<Rightarrow> (Inl e, s1)
         | Inr es \<Rightarrow>
             (Inr (PDict [(''message'', PStr ''New API key created''),
                          (''new_key'', PStr (generate_api_key rnd 20))]),
              s1\<lparr>api_keys_list := es @ [key_doc_json d']\<rparr>))"
  using assms
  by (simp add: create_api_key_def Let_def json_dumps_key_doc rpush_def split: sum.splits)

lemma length_chars: "length chars = 76"
  by (simp add: chars_def ascii_letters_def)

lemma choice_in_chars: "choice chars r \<in> set chars"
  by (simp add: choice_def length_chars)

lemma generate_api_key_length: "length (generate_api_key rnd n) = n"
  by (simp add: generate_api_key_def)

lemma generate_api_key_alphabet: "set (generate_api_key rnd n) \<subseteq> set chars"
  by (auto simp: generate_api_key_def choice_in_chars)

lemma find_None_ball: "(find P xs = None) = (\<forall>x\<in>set xs. \<not> P x)"
  by (induction xs) auto

lemma find_Some_bex: "(\<exists>d. find P xs = Some d) = (\<exists>x\<in>set xs. P x)"
  by (induction xs) auto

lemma find_append_last: "find P xs = None \<Longrightarrow> P d \<Longrightarrow> find P (xs @ [d]) = Some d"
  by (induction xs) (auto split: if_splits)

lemma find_update_one_keys:
  "find (\<lambda>d. key_id d = m) ds = Some d \<Longrightarrow>
   find (\<lambda>d. key_id d = m) (update_one_keys m ks ds) = Some (d\<lparr>keys := ks\<rparr>)"
  by (induction ds) (auto split: if_splits)

lemma length_update_one_keys [simp]: "length (update_one_keys m ks ds) = length ds"
  by (induction ds) auto

lemma first_match_error:
  "first_match x es = Inl e \<Longrightarrow> e = JSONDecodeError \<or> e = AttributeError"
  by (induction es)
     (auto simp: json_loads_def py_get_def split: sum.splits option.splits pyval.splits if_splits)

lemma remove_old_entry_error:
  "remove_old_entry m es = Inl e \<Longrightarrow> e = JSONDecodeError \<or> e = AttributeError"
  by (auto simp: remove_old_entry_def split: sum.splits option.splits dest: first_match_error)

lemma remove_old_entry_docs:
  "list_all is_doc_entry es \<Longrightarrow> \<exists>es'. remove_old_entry m es = Inr es'"
  using first_match_docs [of es "PStr m"]
  by (auto simp: remove_old_entry_def split: option.splits)

lemma ObjectId_error: "ObjectId m = Inl e \<Longrightarrow> e = InvalidId"
  by (simp add: ObjectId_def split: if_splits)

text \<open>What \<^verbatim>\<open>create_api_key\<close> does once the user is found.\<close>

lemma create_api_key_found:
  assumes "ObjectId mongo_id = Inr oid" and "find (\<lambda>d. user_oid d = oid) (db_users s) = Some u"
  shows "\<exists>d' ks.
     d' = (case find (\<lambda>d. key_id d = mongo_id) (db_keys s) of
             None \<Rightarrow> \<lparr>key_oid = oid_k, key_id = mongo_id, keys = [valid_key (generate_api_key rnd 20)]\<rparr>
           | Some d \<Rightarrow> d\<lparr>keys := keys d @ [valid_key (generate_api_key rnd 20)]\<rparr>)
     \<and> ks = (case find (\<lambda>d. key_id d = mongo_id) (db_keys s) of
               None \<Rightarrow> db_keys s @ [d']
             | Some d \<Rightarrow> update_one_keys mongo_id (keys d') (db_keys s))
     \<and> find (\<lambda>d. key_id d = mongo_id) ks = Some d'
     \<and> create_api_key rnd oid_k mongo_id s =
        (case remove_old_entry mongo_id (api_keys_list s) of
           Inl e \<Rightarrow> (Inl e, s\<lparr>db_keys := ks\<rparr>)
         | Inr es \<Rightarrow>
             (Inr (PDict [(''message'', PStr ''New API key created''),
                          (''new_key'', PStr (generate_api_key rnd 20))]),
              s\<lparr>db_keys := ks, api_keys_list := es @ [key_doc_json d']\<rparr>))"
proof (cases "find (\<lambda>d. key_id d = mongo_id) (db_keys s)")
  case None
  then show ?thesis
    using create_api_key_insert [OF assms None, of rnd oid_k]
    by (simp add: Let_def find_append_last)
next
  case (Some d)
  then show ?thesis
    using create_api_key_append [OF assms Some, of rnd oid_k]
    by (simp add: Let_def find_update_one_keys)
qed

section \<open>Creating a user\<close>

text \<open>
  The id \<open>2 ^ 63\<close> is in no document of the empty store, and yet the call creates nothing:
  the encoder of the filter of \<^verbatim>\<open>find_one\<close> raises \<open>OverflowError\<close>, and the store and
  the cache stay as they are.
\<close>

theorem create_user_success_counterexample:
  "db_users init_state = []
   \<and> create_user (\<lambda>i. 7 * i) ''650000000000000000000001'' ''650000000000000000000002''
        \<lparr>User_id = 9223372036854775808, User_name = ''Ann'', User_company = ''Acme'',
          User_status = active\<rparr> init_state
       = (Inl OverflowError, init_state)"
  by code_simp

text \<open>
  C2, as it holds for the code. For every call of \<^verbatim>\<open>create_user\<close> whose id fits in a
  signed 64-bit integer and is not yet in the store, the route returns the created user
  with the storage id attached together with the plaintext key; it appends the user
  document, and one key-set document for that storage id which holds that single key with
  status \<^verbatim>\<open>"valid"\<close>; the key is generated once and has exactly 20 characters, the
  \<open>i\<close>-th of them being the character of the alphabet that the \<open>i\<close>-th draw of the random
  source selects, and the alphabet consists of the ASCII letters, the digits and the fixed
  punctuation.
\<close>

theorem create_user_success:
  assumes "bson_int (User_id user)" and "\<forall>d\<in>set (db_users s). User_id d \<noteq> User_id user"
  shows "fst (create_user rnd oid_u oid_k user s) =
           Inr (PDict [(''message'', PStr ''User created''),
                       (''user'', PDict (dict_User user @ [(''_id'', PStr oid_u)])),
                       (''api_key'', PStr (generate_api_key rnd 20))])
         \<and> db_users (snd (create_user rnd oid_u oid_k user s)) =
             db_users s @ [User.extend user (user_doc.fields oid_u)]
         \<and> db_keys (snd (create_user rnd oid_u oid_k user s)) =
             db_keys s @ [\<lparr>key_oid = oid_k, key_id = oid_u,
                            keys = [\<lparr>key = generate_api_key rnd 20, status = ''valid''\<rparr>]\<rparr>]
         \<and> length (generate_api_key rnd 20) = 20
         \<and> generate_api_key rnd 20 = map (\<lambda>i. chars ! (rnd i mod length chars)) [0..<20]
         \<and> set (generate_api_key rnd 20) \<subseteq> set chars
         \<and> chars = ascii_letters @ ''0123456789'' @ ''!@#$%^&*()_+-=''"
proof -
  have "find (\<lambda>d. User_id d = User_id user) (db_users s) = None"
    using assms(2) by (simp add: find_None_ball)
  with assms(1) have "create_user rnd oid_u oid_k user s =
     (Inr (PDict [(''message'', PStr ''User created''),
                  (''user'', PDict (dict_User user @ [(''_id'', PStr oid_u)])),
                  (''api_key'', PStr (generate_api_key rnd 20))]),
      s\<lparr>db_users := db_users s @ [User.extend user (user_doc.fields oid_u)],
        db_keys := db_keys s @ [\<lparr>key_oid = oid_k, key_id = oid_u,
                                 keys = [valid_key (generate_api_key rnd 20)]\<rparr>],
        users_list := removeAll (user_json user oid_u) (users_list s) @ [user_json user oid_u],
        api_keys_list := removeAll (api_json oid_u [valid_key (generate_api_key rnd 20)]) (api_keys_list s)
                          @ [api_json oid_u [valid_key (generate_api_key rnd 20)]]\<rparr>)"
    by (rule create_user_ok)
  then have "fst (create_user rnd oid_u oid_k user s) =
           Inr (PDict [(''message'', PStr ''User created''),
                       (''user'', PDict (dict_User user @ [(''_id'', PStr oid_u)])),
                       (''api_key'', PStr (generate_api_key rnd 20))])"
    and "db_users (snd (create_user rnd oid_u oid_k user s)) =
             db_users s @ [User.extend user (user_doc.fields oid_u)]"
    and "db_keys (snd (create_user rnd oid_u oid_k user s)) =
             db_keys s @ [\<lparr>key_oid = oid_k, key_id = oid_u,
                            keys = [\<lparr>key = generate_api_key rnd 20, status = ''valid''\<rparr>]\<rparr>]"
    by (simp_all add: valid_key_def)
  moreover have "length (generate_api_key rnd 20) = 20"
    by (rule generate_api_key_length)
  moreover have "generate_api_key rnd 20 = map (\<lambda>i. chars ! (rnd i mod length chars)) [0..<20]"
    by (simp only: generate_api_key_def choice_def)
  moreover have "set (generate_api_key rnd 20) \<subseteq> set chars"
    by (rule generate_api_key_alphabet)
  moreover have "chars = ascii_letters @ ''0123456789'' @ ''!@#$%^&*()_+-=''"
    by (rule chars_def)
  ultimately show ?thesis by blast
qed

theorem create_user_success_witness:
  "bson_int 1
   \<and> db_users init_state = []
   \<and> fst (create_user (\<lambda>i. 7 * i) ''650000000000000000000001'' ''650000000000000000000002''
             \<lparr>User_id = 1, User_name = ''Ann'', User_company = ''Acme'', User_status = active\<rparr> init_state)
     = Inr (PDict [(''message'', PStr ''User created''),
                   (''user'', PDict [(''id'', PInt 1), (''name'', PStr ''Ann''), (''company'', PStr ''Acme''),
                                     (''status'', PStr ''active''), (''_id'', PStr ''650000000000000000000001'')]),
                   (''api_key'', PStr ''ahovCJQX4@(bipwDKRY5'')])
   \<and> map (\<lambda>i. chars ! ((7 * i) mod length chars)) [0..<20] = ''ahovCJQX4@(bipwDKRY5''
   \<and> length ''ahovCJQX4@(bipwDKRY5'' = 20"
proof -
  have b: "bson_int (User_id \<lparr>User_id = 1, User_name = ''Ann'', User_company = ''Acme'',
             User_status = active\<rparr>)"
    by (simp add: bson_int_def)
  have h: "\<forall>d\<in>set (db_users init_state). User_id d \<noteq>
             User_id \<lparr>User_id = 1, User_name = ''Ann'', User_company = ''Acme'', User_status = active\<rparr>"
    by (simp add: init_state_def)
  have k: "generate_api_key (\<lambda>i. 7 * i) 20 = ''ahovCJQX4@(bipwDKRY5''"
    by code_simp
  have b1: "bson_int 1" by (simp add: bson_int_def)
  have e: "db_users init_state = []" by (simp add: init_state_def)
  from create_user_success [OF b h, of "\<lambda>i. 7 * i" "''650000000000000000000001''" "''650000000000000000000002''"]
  have "fst (create_user (\<lambda>i. 7 * i) ''650000000000000000000001'' ''650000000000000000000002''
             \<lparr>User_id = 1, User_name = ''Ann'', User_company = ''Acme'', User_status = active\<rparr> init_state)
     = Inr (PDict [(''message'', PStr ''User created''),
                   (''user'', PDict [(''id'', PInt 1), (''name'', PStr ''Ann''), (''company'', PStr ''Acme''),
                                     (''status'', PStr ''active''), (''_id'', PStr ''650000000000000000000001'')]),
                   (''api_key'', PStr ''ahovCJQX4@(bipwDKRY5'')])"
    and "map (\<lambda>i. chars ! ((7 * i) mod length chars)) [0..<20] = ''ahovCJQX4@(bipwDKRY5''"
    by (simp_all only: k) (simp_all add: dict_User_def)
  with b1 e show ?thesis by simp
qed

text \<open>
  With the id \<open>2 ^ 63\<close> both of two calls in a row raise \<open>OverflowError\<close>: the second one
  does not fail with 400, and the store holds no document at all.
\<close>

theorem create_user_conflict_iff_counterexample:
  "create_user (\<lambda>i. 3 * i) ''650000000000000000000003'' ''650000000000000000000004''
      \<lparr>User_id = 9223372036854775808, User_name = ''Ann'', User_company = ''Acme'',
        User_status = active\<rparr>
      (snd (create_user (\<lambda>i. 7 * i) ''650000000000000000000001'' ''650000000000000000000002''
             \<lparr>User_id = 9223372036854775808, User_name = ''Ann'', User_company = ''Acme'',
               User_status = active\<rparr> init_state))
     = (Inl OverflowError, init_state)
   \<and> db_users (snd (create_user (\<lambda>i. 7 * i) ''650000000000000000000001''
        ''650000000000000000000002''
        \<lparr>User_id = 9223372036854775808, User_name = ''Ann'', User_company = ''Acme'',
          User_status = active\<rparr> init_state)) = []
   \<and> db_keys (snd (create_user (\<lambda>i. 7 * i) ''650000000000000000000001''
        ''650000000000000000000002''
        \<lparr>User_id = 9223372036854775808, User_name = ''Ann'', User_company = ''Acme'',
          User_status = active\<rparr> init_state)) = []"
  by code_simp

text \<open>
  C3, as it holds for the code. \<^verbatim>\<open>create_user\<close> fails with status 400 exactly when the
  id can be encoded and a user with the same id is in the store, which in a store whose
  ids have all been encoded is: exactly when a user with the same id is in the store. A
  call that raises writes nothing. So when a user whose id fits in a signed 64-bit integer
  is created (the store having assigned it an id that no key set refers to yet) and
  created again with the same id, the second call fails with 400 and changes nothing, and
  the store holds exactly one user document of that id and one key-set document of its
  storage id: one more of each than before the first call.
\<close>

theorem create_user_conflict_iff:
  "((fst (create_user rnd oid_u oid_k user s) = Inl (HTTPException 400 ''User ID already exists''))
      = (bson_int (User_id user) \<and> (\<exists>d\<in>set (db_users s). User_id d = User_id user)))
   \<and> (list_all (\<lambda>d. bson_int (User_id d)) (db_users s) \<longrightarrow>
        (fst (create_user rnd oid_u oid_k user s) = Inl (HTTPException 400 ''User ID already exists''))
          = (\<exists>d\<in>set (db_users s). User_id d = User_id user))
   \<and> (\<forall>e. fst (create_user rnd oid_u oid_k user s) = Inl e
        \<longrightarrow> snd (create_user rnd oid_u oid_k user s) = s)
   \<and> (bson_int (User_id user)
        \<and> (\<forall>d\<in>set (db_users s). User_id d \<noteq> User_id user)
        \<and> (\<forall>d\<in>set (db_keys s). key_id d \<noteq> oid_u)
        \<and> User_id user2 = User_id user
        \<longrightarrow> create_user rnd2 oid_u2 oid_k2 user2 (snd (create_user rnd oid_u oid_k user s))
              = (Inl (HTTPException 400 ''User ID already exists''),
                 snd (create_user rnd oid_u oid_k user s))
          \<and> length (filter (\<lambda>d. User_id d = User_id user)
                (db_users (snd (create_user rnd oid_u oid_k user s)))) = 1
          \<and> length (filter (\<lambda>d. key_id d = oid_u)
                (db_keys (snd (create_user rnd oid_u oid_k user s)))) = 1
          \<and> length (db_users (snd (create_user rnd oid_u oid_k user s))) = Suc (length (db_users s))
          \<and> length (db_keys (snd (create_user rnd oid_u oid_k user s))) = Suc (length (db_keys s)))"
proof (intro conjI impI allI)
  show iff: "(fst (create_user rnd oid_u oid_k user s) = Inl (HTTPException 400 ''User ID already exists''))
      = (bson_int (User_id user) \<and> (\<exists>d\<in>set (db_users s). User_id d = User_id user))"
  proof (cases "bson_int (User_id user)")
    case False
    then show ?thesis by (simp add: create_user_overflow)
  next
    case True
    show ?thesis
    proof (cases "find (\<lambda>d. User_id d = User_id user) (db_users s)")
      case None
      then show ?thesis using True by (simp add: create_user_ok find_None_ball)
    next
      case (Some d)
      then have "\<exists>d\<in>set (db_users s). User_id d = User_id user"
        using find_Some_bex [of "\<lambda>d. User_id d = User_id user" "db_users s"] by auto
      with Some True show ?thesis by (simp add: create_user_conflict)
    qed
  qed
  assume "list_all (\<lambda>d. bson_int (User_id d)) (db_users s)"
  then have "\<exists>d\<in>set (db_users s). User_id d = User_id user \<Longrightarrow> bson_int (User_id user)"
    by (auto simp: list_all_iff)
  with iff show "(fst (create_user rnd oid_u oid_k user s) = Inl (HTTPException 400 ''User ID already exists''))
          = (\<exists>d\<in>set (db_users s). User_id d = User_id user)"
    by blast
next
  fix e assume a: "fst (create_user rnd oid_u oid_k user s) = Inl e"
  show "snd (create_user rnd oid_u oid_k user s) = s"
  proof (cases "bson_int (User_id user)")
    case False
    then show ?thesis by (simp add: create_user_overflow)
  next
    case True
    show ?thesis
    proof (cases "find (\<lambda>d. User_id d = User_id user) (db_users s)")
      case None
      with a True show ?thesis by (simp add: create_user_ok)
    next
      case (Some d)
      with True show ?thesis by (simp add: create_user_conflict)
    qed
  qed
next
  assume h: "bson_int (User_id user)
        \<and> (\<forall>d\<in>set (db_users s). User_id d \<noteq> User_id user)
        \<and> (\<forall>d\<in>set (db_keys s). key_id d \<noteq> oid_u)
        \<and> User_id user2 = User_id user"
  let ?s1 = "snd (create_user rnd oid_u oid_k user s)"
  from h have b: "bson_int (User_id user)" and b2: "bson_int (User_id user2)" by simp_all
  from h have n: "find (\<lambda>d. User_id d = User_id user) (db_users s) = None"
    by (simp add: find_None_ball)
  have u1: "db_users ?s1 = db_users s @ [User.extend user (user_doc.fields oid_u)]"
    and k1: "db_keys ?s1 = db_keys s @ [\<lparr>key_oid = oid_k, key_id = oid_u, keys = [valid_key (generate_api_key rnd 20)]\<rparr>]"
    using b n by (simp_all add: create_user_ok)
  have ext: "User_id (User.extend user (user_doc.fields oid_u)) = User_id user"
    by (simp add: User.defs)
  have "find (\<lambda>d. User_id d = User_id user2) (db_users ?s1)
          = Some (User.extend user (user_doc.fields oid_u))"
    using h n ext by (simp add: u1 find_append_last)
  with b2 show "create_user rnd2 oid_u2 oid_k2 user2 ?s1
              = (Inl (HTTPException 400 ''User ID already exists''), ?s1)"
    by (rule create_user_conflict)
  have "filter (\<lambda>d. User_id d = User_id user) (db_users s) = []"
    using h by (simp add: filter_empty_conv)
  then show "length (filter (\<lambda>d. User_id d = User_id user) (db_users ?s1)) = 1"
    using ext by (simp add: u1)
  have "filter (\<lambda>d. key_id d = oid_u) (db_keys s) = []"
    using h by (simp add: filter_empty_conv)
  then show "length (filter (\<lambda>d. key_id d = oid_u) (db_keys ?s1)) = 1"
    by (simp add: k1)
  show "length (db_users ?s1) = Suc (length (db_users s))" by (simp add: u1)
  show "length (db_keys ?s1) = Suc (length (db_keys s))" by (simp add: k1)
qed

theorem create_user_conflict_iff_witness:
  "bson_int 1
   \<and> create_user (\<lambda>i. 3 * i) ''650000000000000000000003'' ''650000000000000000000004''
      \<lparr>User_id = 1, User_name = ''Bob'', User_company = ''Bolt'', User_status = inactive\<rparr>
      (snd (create_user (\<lambda>i. 7 * i) ''650000000000000000000001'' ''650000000000000000000002''
             \<lparr>User_id = 1, User_name = ''Ann'', User_company = ''Acme'', User_status = active\<rparr>
             init_state))
     = (Inl (HTTPException 400 ''User ID already exists''),
        snd (create_user (\<lambda>i. 7 * i) ''650000000000000000000001'' ''650000000000000000000002''
             \<lparr>User_id = 1, User_name = ''Ann'', User_company = ''Acme'', User_status = active\<rparr>
             init_state))
   \<and> length (db_users (snd (create_user (\<lambda>i. 7 * i) ''650000000000000000000001''
        ''650000000000000000000002''
        \<lparr>User_id = 1, User_name = ''Ann'', User_company = ''Acme'', User_status = active\<rparr>
        init_state))) = 1
   \<and> length (db_keys (snd (create_user (\<lambda>i. 7 * i) ''650000000000000000000001''
        ''650000000000000000000002''
        \<lparr>User_id = 1, User_name = ''Ann'', User_company = ''Acme'', User_status = active\<rparr>
        init_state))) = 1"
  using create_user_conflict_iff
    [where s = init_state and rnd = "\<lambda>i. 7 * i" and oid_u = "''650000000000000000000001''"
       and oid_k = "''650000000000000000000002''"
       and user = "\<lparr>User_id = 1, User_name = ''Ann'', User_company = ''Acme'', User_status = active\<rparr>"
       and ?user2.0 = "\<lparr>User_id = 1, User_name = ''Bob'', User_company = ''Bolt'', User_status = inactive\<rparr>"
       and ?rnd2.0 = "\<lambda>i. 3 * i" and ?oid_u2.0 = "''650000000000000000000003''"
       and ?oid_k2.0 = "''650000000000000000000004''"]
  by (simp add: init_state_def bson_int_def)

section \<open>Creating a further key\<close>

text \<open>
  The string \<^verbatim>\<open>abc\<close> is the storage id of no user, and yet the route does not answer 404:
  \<^verbatim>\<open>ObjectId("abc")\<close> raises \<open>InvalidId\<close> before the store is asked.
\<close>

theorem create_api_key_spec_counterexample:
  "db_users init_state = []
   \<and> create_api_key (\<lambda>i. 7 * i) ''650000000000000000000002'' ''abc'' init_state
       = (Inl InvalidId, init_state)"
  by code_simp

text \<open>
  C7, as it holds for the code. For a storage id that is a well-formed object id,
  \<^verbatim>\<open>create_api_key\<close> fails with status 404 exactly when no user has that object id,
  and then writes nothing; otherwise it generates a key of 20 characters and, when there
  is no key set for the storage id, inserts one with that single key, while it appends
  the key to the keys of an existing one and keeps all of them; it returns the new
  plaintext key when the scan of the cache list meets documents only.
\<close>

theorem create_api_key_spec:
  "(\<forall>oid. ObjectId mongo_id = Inr oid \<longrightarrow>
         (fst (create_api_key rnd oid_k mongo_id s) = Inl (HTTPException 404 ''User not found''))
           = (\<forall>u\<in>set (db_users s). user_oid u \<noteq> oid))
   \<and> (\<forall>oid. ObjectId mongo_id = Inr oid \<and> (\<forall>u\<in>set (db_users s). user_oid u \<noteq> oid) \<longrightarrow>
         snd (create_api_key rnd oid_k mongo_id s) = s)
   \<and> (\<forall>oid. ObjectId mongo_id = Inr oid \<and> (\<exists>u\<in>set (db_users s). user_oid u = oid) \<longrightarrow>
         length (generate_api_key rnd 20) = 20
         \<and> (case find (\<lambda>d. key_id d = mongo_id) (db_keys s) of
              None \<Rightarrow>
                db_keys (snd (create_api_key rnd oid_k mongo_id s)) =
                  db_keys s @ [\<lparr>key_oid = oid_k, key_id = mongo_id,
                                 keys = [\<lparr>key = generate_api_key rnd 20, status = ''valid''\<rparr>]\<rparr>]
            | Some d \<Rightarrow>
                db_keys (snd (create_api_key rnd oid_k mongo_id s)) =
                  update_one_keys mongo_id
                    (keys d @ [\<lparr>key = generate_api_key rnd 20, status = ''valid''\<rparr>]) (db_keys s)
                \<and> find (\<lambda>d. key_id d = mongo_id) (db_keys (snd (create_api_key rnd oid_k mongo_id s)))
                    = Some (d\<lparr>keys := keys d @ [\<lparr>key = generate_api_key rnd 20, status = ''valid''\<rparr>]\<rparr>))
         \<and> (list_all is_doc_entry (api_keys_list s) \<longrightarrow>
              fst (create_api_key rnd oid_k mongo_id s) =
                Inr (PDict [(''message'', PStr ''New API key created''),
                            (''new_key'', PStr (generate_api_key rnd 20))])))"
proof (intro conjI impI allI)
  fix oid assume o: "ObjectId mongo_id = Inr oid"
  show "(fst (create_api_key rnd oid_k mongo_id s) = Inl (HTTPException 404 ''User not found''))
           = (\<forall>u\<in>set (db_users s). user_oid u \<noteq> oid)"
  proof (cases "find (\<lambda>d. user_oid d = oid) (db_users s)")
    case None
    then show ?thesis
      using o by (simp add: create_api_key_no_user find_None_ball)
  next
    case (Some u)
    then have ex: "\<exists>u\<in>set (db_users s). user_oid u = oid"
      using find_Some_bex [of "\<lambda>d. user_oid d = oid" "db_users s"] by auto
    have "fst (create_api_key rnd oid_k mongo_id s) \<noteq> Inl (HTTPException 404 ''User not found'')"
      using create_api_key_found [OF o Some, of oid_k rnd]
      by (auto split: sum.splits dest: remove_old_entry_error)
    with ex show ?thesis by auto
  qed
next
  fix oid assume "ObjectId mongo_id = Inr oid \<and> (\<forall>u\<in>set (db_users s). user_oid u \<noteq> oid)"
  then show "snd (create_api_key rnd oid_k mongo_id s) = s"
    by (simp add: create_api_key_no_user find_None_ball)
next
  fix oid assume "ObjectId mongo_id = Inr oid \<and> (\<exists>u\<in>set (db_users s). user_oid u = oid)"
  then show "length (generate_api_key rnd 20) = 20"
    by (simp add: generate_api_key_length)
next
  fix oid assume h: "ObjectId mongo_id = Inr oid \<and> (\<exists>u\<in>set (db_users s). user_oid u = oid)"
  then obtain u where u: "find (\<lambda>d. user_oid d = oid) (db_users s) = Some u"
    using find_Some_bex [of "\<lambda>d. user_oid d = oid" "db_users s"] by auto
  from h have o: "ObjectId mongo_id = Inr oid" by simp
  show "case find (\<lambda>d. key_id d = mongo_id) (db_keys s) of
              None \<Rightarrow>
                db_keys (snd (create_api_key rnd oid_k mongo_id s)) =
                  db_keys s @ [\<lparr>key_oid = oid_k, key_id = mongo_id,
                                 keys = [\<lparr>key = generate_api_key rnd 20, status = ''valid''\<rparr>]\<rparr>]
            | Some d \<Rightarrow>
                db_keys (snd (create_api_key rnd oid_k mongo_id s)) =
                  update_one_keys mongo_id
                    (keys d @ [\<lparr>key = generate_api_key rnd 20, status = ''valid''\<rparr>]) (db_keys s)
                \<and> find (\<lambda>d. key_id d = mongo_id) (db_keys (snd (create_api_key rnd oid_k mongo_id s)))
                    = Some (d\<lparr>keys := keys d @ [\<lparr>key = generate_api_key rnd 20, status = ''valid''\<rparr>]\<rparr>)"
    using create_api_key_found [OF o u, of oid_k rnd]
    by (auto simp: valid_key_def split: sum.splits option.splits)
next
  fix oid
  assume h: "ObjectId mongo_id = Inr oid \<and> (\<exists>u\<in>set (db_users s). user_oid u = oid)"
    and docs: "list_all is_doc_entry (api_keys_list s)"
  then obtain u where u: "find (\<lambda>d. user_oid d = oid) (db_users s) = Some u"
    using find_Some_bex [of "\<lambda>d. user_oid d = oid" "db_users s"] by auto
  from h have o: "ObjectId mongo_id = Inr oid" by simp
  from docs obtain es where "remove_old_entry mongo_id (api_keys_list s) = Inr es"
    using remove_old_entry_docs by blast
  then show "fst (create_api_key rnd oid_k mongo_id s) =
                Inr (PDict [(''message'', PStr ''New API key created''),
                            (''new_key'', PStr (generate_api_key rnd 20))])"
    using create_api_key_found [OF o u, of oid_k rnd] by auto
qed

theorem create_api_key_spec_witness:
  "ObjectId ''650000000000000000000001'' = Inr ''650000000000000000000001''
   \<and> (\<exists>u\<in>set (db_users
      \<lparr>db_users = [\<lparr>User_id = 1, User_name = ''Ann'', User_company = ''Acme'', User_status = active,
                    user_oid = ''650000000000000000000001''\<rparr>],
       db_keys = [\<lparr>key_oid = ''650000000000000000000002'', key_id = ''650000000000000000000001'',
                   keys = [\<lparr>key = ''k1'', status = ''valid''\<rparr>]\<rparr>],
       users_list = [],
       api_keys_list =
         [''{\"id\": \"650000000000000000000001\", \"keys\": [{\"key\": \"k1\", \"status\": \"valid\"}]}'']\<rparr>).
        user_oid u = ''650000000000000000000001'')
   \<and> list_all is_doc_entry (api_keys_list
      \<lparr>db_users = [\<lparr>User_id = 1, User_name = ''Ann'', User_company = ''Acme'', User_status = active,
                    user_oid = ''650000000000000000000001''\<rparr>],
       db_keys = [\<lparr>key_oid = ''650000000000000000000002'', key_id = ''650000000000000000000001'',
                   keys = [\<lparr>key = ''k1'', status = ''valid''\<rparr>]\<rparr>],
       users_list = [],
       api_keys_list =
         [''{\"id\": \"650000000000000000000001\", \"keys\": [{\"key\": \"k1\", \"status\": \"valid\"}]}'']\<rparr>)
   \<and> fst (create_api_key (\<lambda>i. 3 * i) ''650000000000000000000003'' ''650000000000000000000001''
      \<lparr>db_users = [\<lparr>User_id = 1, User_name = ''Ann'', User_company = ''Acme'', User_status = active,
                    user_oid = ''650000000000000000000001''\<rparr>],
       db_keys = [\<lparr>key_oid = ''650000000000000000000002'', key_id = ''650000000000000000000001'',
                   keys = [\<lparr>key = ''k1'', status = ''valid''\<rparr>]\<rparr>],
       users_list = [],
       api_keys_list =
         [''{\"id\": \"650000000000000000000001\", \"keys\": [{\"key\": \"k1\", \"status\": \"valid\"}]}'']\<rparr>)
     = Inr (PDict [(''message'', PStr ''New API key created''),
                   (''new_key'', PStr (generate_api_key (\<lambda>i. 3 * i) 20))])"
proof -
  let ?S = "\<lparr>db_users = [\<lparr>User_id = 1, User_name = ''Ann'', User_company = ''Acme'', User_status = active,
                    user_oid = ''650000000000000000000001''\<rparr>],
       db_keys = [\<lparr>key_oid = ''650000000000000000000002'', key_id = ''650000000000000000000001'',
                   keys = [\<lparr>key = ''k1'', status = ''valid''\<rparr>]\<rparr>],
       users_list = [],
       api_keys_list =
         [''{\"id\": \"650000000000000000000001\", \"keys\": [{\"key\": \"k1\", \"status\": \"valid\"}]}'']\<rparr>"
  have h1: "ObjectId ''650000000000000000000001'' = Inr ''650000000000000000000001''"
    by code_simp
  have h2: "\<exists>u\<in>set (db_users ?S). user_oid u = ''650000000000000000000001''"
    by simp
  have h3: "list_all is_doc_entry (api_keys_list ?S)"
    by code_simp
  from create_api_key_spec [of "''650000000000000000000001''" "\<lambda>i. 3 * i" "''650000000000000000000003''" ?S]
    h1 h2 h3
  have c1: "fst (create_api_key (\<lambda>i. 3 * i) ''650000000000000000000003'' ''650000000000000000000001'' ?S)
     = Inr (PDict [(''message'', PStr ''New API key created''),
                   (''new_key'', PStr (generate_api_key (\<lambda>i. 3 * i) 20))])"
    by blast
  from h1 h2 h3 c1 show ?thesis by blast
qed

section \<open>Reading from the cache\<close>











section \<open>The cache update after a change of a key set\<close>

text \<open>
  Two string-identical entries for \<open>a\<close>: the first match is removed with \<^verbatim>\<open>lrem\<close> and
  count 0, which takes both copies away, so after the append one entry is left where two
  were before.
\<close>

theorem cache_update_count_counterexample:
  "count_id ''a'' [''{\"id\": \"a\", \"keys\": []}'', ''{\"id\": \"a\", \"keys\": []}''] = 2
   \<and> remove_old_entry ''a'' [''{\"id\": \"a\", \"keys\": []}'', ''{\"id\": \"a\", \"keys\": []}''] = Inr []
   \<and> count_id ''a'' (rpush ''{\"_id\": \"7\", \"id\": \"a\", \"keys\": []}'' []) = 1"
  by code_simp

text \<open>
  C10, as it holds for the code. When the scan of \<^verbatim>\<open>create_api_key\<close> and \<^verbatim>\<open>remove_api_key\<close> does not
  raise and the appended entry decodes to the storage id, a list with \<open>n\<close> entries of that
  id becomes a list with \<open>n - m + 1\<close> of them, \<open>m\<close> being the number of copies of the first
  entry of the id (the whole of them is removed); with no entry of the id it becomes a
  list with one. The number is kept whenever the entries of the id are pairwise different
  strings, and it never falls below one.
\<close>

theorem cache_update_count:
  assumes "remove_old_entry mongo_id entries = Inr entries'"
    and "has_id (PStr mongo_id) new_json"
  shows "count_id mongo_id (rpush new_json entries') =
           (case find (has_id (PStr mongo_id)) entries of
              None \<Rightarrow> 1
            | Some e \<Rightarrow> count_id mongo_id entries - count_list entries e + 1)
         \<and> (count_id mongo_id entries = 0 \<longrightarrow> count_id mongo_id (rpush new_json entries') = 1)
         \<and> (1 \<le> count_id mongo_id entries \<and> distinct (filter (has_id (PStr mongo_id)) entries)
              \<longrightarrow> count_id mongo_id (rpush new_json entries') = count_id mongo_id entries)
         \<and> 1 \<le> count_id mongo_id (rpush new_json entries')"
proof -
  let ?P = "has_id (PStr mongo_id)"
  let ?n = "count_id mongo_id entries"
  let ?n' = "count_id mongo_id (rpush new_json entries')"
  have es': "entries' = (case find ?P entries of None \<Rightarrow> entries | Some e \<Rightarrow> removeAll e entries)"
    using assms(1) by (rule remove_old_entry_find)
  have main: "?n' = (case find ?P entries of None \<Rightarrow> 1 | Some e \<Rightarrow> ?n - count_list entries e + 1)"
  proof (cases "find ?P entries")
    case None
    then show ?thesis
      using assms(2) es' find_has_id_count [OF None] by (simp add: count_id_def rpush_def)
  next
    case (Some e)
    then have "?P e" by (simp add: find_SomeD)
    then show ?thesis
      using assms(2) es' Some by (simp add: count_id_def rpush_def count_removeAll)
  qed
  have zero: "?n = 0 \<longrightarrow> ?n' = 1"
  proof
    assume "?n = 0"
    then have "find ?P entries = None"
      by (simp add: count_id_def find_None_iff filter_empty_conv)
    with main show "?n' = 1" by simp
  qed
  have dist: "1 \<le> ?n \<and> distinct (filter ?P entries) \<longrightarrow> ?n' = ?n"
  proof
    assume h: "1 \<le> ?n \<and> distinct (filter ?P entries)"
    then obtain e where e: "find ?P entries = Some e"
      by (cases "find ?P entries") (auto dest: find_has_id_count)
    then have "?P e" "e \<in> set entries"
      by (auto dest: find_SomeD)
    with h have "count_list entries e = 1"
      using distinct_filter_count [of ?P entries e] by simp
    with main e h show "?n' = ?n" by simp
  qed
  have "1 \<le> ?n'"
    using main by (cases "find ?P entries") auto
  with main zero dist show ?thesis by blast
qed

theorem cache_update_count_witness:
  "(remove_old_entry ''a'' [] = Inr []
    \<and> has_id (PStr ''a'') ''{\"id\": \"a\", \"keys\": []}''
    \<and> count_id ''a'' [] = 0
    \<and> count_id ''a'' (rpush ''{\"id\": \"a\", \"keys\": []}'' []) = 1)
   \<and> (remove_old_entry ''a'' [''{\"id\": \"a\", \"keys\": []}'', ''{\"id\": \"a\"}'']
         = Inr [''{\"id\": \"a\"}'']
    \<and> has_id (PStr ''a'') ''{\"_id\": \"7\", \"id\": \"a\", \"keys\": []}''
    \<and> 1 \<le> count_id ''a'' [''{\"id\": \"a\", \"keys\": []}'', ''{\"id\": \"a\"}'']
    \<and> distinct (filter (has_id (PStr ''a'')) [''{\"id\": \"a\", \"keys\": []}'', ''{\"id\": \"a\"}''])
    \<and> count_id ''a'' (rpush ''{\"_id\": \"7\", \"id\": \"a\", \"keys\": []}'' [''{\"id\": \"a\"}''])
        = count_id ''a'' [''{\"id\": \"a\", \"keys\": []}'', ''{\"id\": \"a\"}''])"
proof -
  have a1: "remove_old_entry ''a'' [] = Inr []"
    by code_simp
  have a2: "has_id (PStr ''a'') ''{\"id\": \"a\", \"keys\": []}''"
    by code_simp
  have a3: "count_id ''a'' [] = 0"
    by code_simp
  have b1: "remove_old_entry ''a'' [''{\"id\": \"a\", \"keys\": []}'', ''{\"id\": \"a\"}'']
              = Inr [''{\"id\": \"a\"}'']"
    by code_simp
  have b2: "has_id (PStr ''a'') ''{\"_id\": \"7\", \"id\": \"a\", \"keys\": []}''"
    by code_simp
  have b3: "1 \<le> count_id ''a'' [''{\"id\": \"a\", \"keys\": []}'', ''{\"id\": \"a\"}'']
            \<and> distinct (filter (has_id (PStr ''a'')) [''{\"id\": \"a\", \"keys\": []}'', ''{\"id\": \"a\"}''])"
    by code_simp
  from cache_update_count [OF a1 a2] a1 a2 a3 cache_update_count [OF b1 b2] b1 b2 b3
  show ?thesis by blast
qed

text \<open>
  A cache list with two string-identical entries for the storage id: after
  \<^verbatim>\<open>remove_api_key\<close> both are gone and only the appended entry is left, where the removal
  of the single first entry would have left two.
\<close>

theorem cache_update_after_mutation_counterexample:
  "api_keys_list (snd (remove_api_key ''650000000000000000000001'' ''k1''
      \<lparr>db_users = [\<lparr>User_id = 1, User_name = ''Ann'', User_company = ''Acme'', User_status = active,
                    user_oid = ''650000000000000000000001''\<rparr>],
       db_keys = [\<lparr>key_oid = ''650000000000000000000002'', key_id = ''650000000000000000000001'',
                   keys = [\<lparr>key = ''k1'', status = ''valid''\<rparr>]\<rparr>],
       users_list = [],
       api_keys_list =
         [''{\"id\": \"650000000000000000000001\", \"keys\": [{\"key\": \"k1\", \"status\": \"valid\"}]}'',
          ''{\"id\": \"650000000000000000000001\", \"keys\": [{\"key\": \"k1\", \"status\": \"valid\"}]}'']\<rparr>))
     = [''{\"id\": \"650000000000000000000001\", \"keys\": []}'']
   \<and> fst (remove_api_key ''650000000000000000000001'' ''k1''
      \<lparr>db_users = [\<lparr>User_id = 1, User_name = ''Ann'', User_company = ''Acme'', User_status = active,
                    user_oid = ''650000000000000000000001''\<rparr>],
       db_keys = [\<lparr>key_oid = ''650000000000000000000002'', key_id = ''650000000000000000000001'',
                   keys = [\<lparr>key = ''k1'', status = ''valid''\<rparr>]\<rparr>],
       users_list = [],
       api_keys_list =
         [''{\"id\": \"650000000000000000000001\", \"keys\": [{\"key\": \"k1\", \"status\": \"valid\"}]}'',
          ''{\"id\": \"650000000000000000000001\", \"keys\": [{\"key\": \"k1\", \"status\": \"valid\"}]}'']\<rparr>)
     = Inr (PDict [(''message'', PStr ''API key removed''), (''removed_key'', PStr ''k1'')])"
  by code_simp

text \<open>
  C4, as it holds for the code. After \<^verbatim>\<open>create_api_key\<close> and \<^verbatim>\<open>remove_api_key\<close> have changed a key set,
  the api-keys cache list is the old list, scanned once from the head, without every entry
  that is string-identical to the first entry whose decoded \<^verbatim>\<open>"id"\<close> equals the storage
  id (the entry is found by its decoded id and removed by its text), followed by the new
  serialization of the updated document, whether or not an entry of the id was found. When
  the entries of the id are pairwise different strings, the first of them alone is
  removed.
\<close>

theorem cache_update_after_mutation:
  "(create_api_key rnd oid_k mongo_id s = (Inr r, s') \<longrightarrow>
      (\<exists>d'. find (\<lambda>d. key_id d = mongo_id) (db_keys s') = Some d'
            \<and> api_keys_list s' = rpush (key_doc_json d') (without_old mongo_id (api_keys_list s))))
   \<and> (remove_api_key mongo_id key_to_remove s = (Inr r, s') \<longrightarrow>
      (\<exists>d'. find (\<lambda>d. key_id d = mongo_id) (db_keys s') = Some d'
            \<and> api_keys_list s' =
                rpush (api_json mongo_id (keys d')) (without_old mongo_id (api_keys_list s))))
   \<and> without_old mongo_id (api_keys_list s) =
        (case find (has_id (PStr mongo_id)) (api_keys_list s) of
           None \<Rightarrow> api_keys_list s
         | Some e \<Rightarrow> removeAll e (api_keys_list s))
   \<and> (distinct (filter (has_id (PStr mongo_id)) (api_keys_list s)) \<longrightarrow>
        without_old mongo_id (api_keys_list s) =
          (case find (has_id (PStr mongo_id)) (api_keys_list s) of
             None \<Rightarrow> api_keys_list s
           | Some e \<Rightarrow> remove1 e (api_keys_list s)))"
proof (intro conjI impI)
  assume a: "create_api_key rnd oid_k mongo_id s = (Inr r, s')"
  then obtain oid where o: "ObjectId mongo_id = Inr oid"
    by (cases "ObjectId mongo_id") (auto simp: create_api_key_invalid)
  with a obtain u where u: "find (\<lambda>d. user_oid d = oid) (db_users s) = Some u"
    by (cases "find (\<lambda>d. user_oid d = oid) (db_users s)") (auto simp: create_api_key_no_user)
  from create_api_key_found [OF o u, of oid_k rnd] a
  show "\<exists>d'. find (\<lambda>d. key_id d = mongo_id) (db_keys s') = Some d'
            \<and> api_keys_list s' = rpush (key_doc_json d') (without_old mongo_id (api_keys_list s))"
    by (auto simp: rpush_def split: sum.splits dest!: remove_old_entry_without_old)
next
  assume a: "remove_api_key mongo_id key_to_remove s = (Inr r, s')"
  then obtain d where d: "find (\<lambda>d. key_id d = mongo_id) (db_keys s) = Some d"
    by (cases "find (\<lambda>d. key_id d = mongo_id) (db_keys s)") (auto simp: remove_api_key_no_doc)
  have ex: "\<exists>x\<in>set (keys d). key x = key_to_remove"
  proof (rule ccontr)
    assume "\<not> (\<exists>x\<in>set (keys d). key x = key_to_remove)"
    then have "\<forall>x\<in>set (keys d). key x \<noteq> key_to_remove" by simp
    from remove_api_key_no_key [OF d this] a show False by simp
  qed
  from remove_api_key_found [OF d ex] a
  show "\<exists>d'. find (\<lambda>d. key_id d = mongo_id) (db_keys s') = Some d'
            \<and> api_keys_list s' =
                rpush (api_json mongo_id (keys d')) (without_old mongo_id (api_keys_list s))"
    using find_update_one_keys [OF d]
    by (auto simp: rpush_def split: sum.splits dest!: remove_old_entry_without_old)
next
  show "without_old mongo_id (api_keys_list s) =
        (case find (has_id (PStr mongo_id)) (api_keys_list s) of
           None \<Rightarrow> api_keys_list s
         | Some e \<Rightarrow> removeAll e (api_keys_list s))"
    by (rule without_old_def)
next
  assume "distinct (filter (has_id (PStr mongo_id)) (api_keys_list s))"
  then show "without_old mongo_id (api_keys_list s) =
          (case find (has_id (PStr mongo_id)) (api_keys_list s) of
             None \<Rightarrow> api_keys_list s
           | Some e \<Rightarrow> remove1 e (api_keys_list s))"
    by (rule without_old_distinct)
qed

theorem cache_update_after_mutation_witness:
  "create_api_key (\<lambda>i. 3 * i) ''650000000000000000000003'' ''650000000000000000000001''
      \<lparr>db_users = [\<lparr>User_id = 1, User_name = ''Ann'', User_company = ''Acme'', User_status = active,
                    user_oid = ''650000000000000000000001''\<rparr>],
       db_keys = [\<lparr>key_oid = ''650000000000000000000002'', key_id = ''650000000000000000000001'',
                   keys = [\<lparr>key = ''k1'', status = ''valid''\<rparr>]\<rparr>],
       users_list = [],
       api_keys_list =
         [''{\"id\": \"650000000000000000000001\", \"keys\": [{\"key\": \"k1\", \"status\": \"valid\"}]}'']\<rparr>
     = (Inr (PDict [(''message'', PStr ''New API key created''),
                    (''new_key'', PStr (generate_api_key (\<lambda>i. 3 * i) 20))]),
        snd (create_api_key (\<lambda>i. 3 * i) ''650000000000000000000003'' ''650000000000000000000001''
      \<lparr>db_users = [\<lparr>User_id = 1, User_name = ''Ann'', User_company = ''Acme'', User_status = active,
                    user_oid = ''650000000000000000000001''\<rparr>],
       db_keys = [\<lparr>key_oid = ''650000000000000000000002'', key_id = ''650000000000000000000001'',
                   keys = [\<lparr>key = ''k1'', status = ''valid''\<rparr>]\<rparr>],
       users_list = [],
       api_keys_list =
         [''{\"id\": \"650000000000000000000001\", \"keys\": [{\"key\": \"k1\", \"status\": \"valid\"}]}'']\<rparr>))
   \<and> remove_api_key ''650000000000000000000001'' ''k1''
      \<lparr>db_users = [\<lparr>User_id = 1, User_name = ''Ann'', User_company = ''Acme'', User_status = active,
                    user_oid = ''650000000000000000000001''\<rparr>],
       db_keys = [\<lparr>key_oid = ''650000000000000000000002'', key_id = ''650000000000000000000001'',
                   keys = [\<lparr>key = ''k1'', status = ''valid''\<rparr>]\<rparr>],
       users_list = [],
       api_keys_list =
         [''{\"id\": \"650000000000000000000001\", \"keys\": [{\"key\": \"k1\", \"status\": \"valid\"}]}'']\<rparr>
     = (Inr (PDict [(''message'', PStr ''API key removed''), (''removed_key'', PStr ''k1'')]),
        snd (remove_api_key ''650000000000000000000001'' ''k1''
      \<lparr>db_users = [\<lparr>User_id = 1, User_name = ''Ann'', User_company = ''Acme'', User_status = active,
                    user_oid = ''650000000000000000000001''\<rparr>],
       db_keys = [\<lparr>key_oid = ''650000000000000000000002'', key_id = ''650000000000000000000001'',
                   keys = [\<lparr>key = ''k1'', status = ''valid''\<rparr>]\<rparr>],
       users_list = [],
       api_keys_list =
         [''{\"id\": \"650000000000000000000001\", \"keys\": [{\"key\": \"k1\", \"status\": \"valid\"}]}'']\<rparr>))
   \<and> distinct (filter (has_id (PStr ''650000000000000000000001'')) (api_keys_list
      \<lparr>db_users = [\<lparr>User_id = 1, User_name = ''Ann'', User_company = ''Acme'', User_status = active,
                    user_oid = ''650000000000000000000001''\<rparr>],
       db_keys = [\<lparr>key_oid = ''650000000000000000000002'', key_id = ''650000000000000000000001'',
                   keys = [\<lparr>key = ''k1'', status = ''valid''\<rparr>]\<rparr>],
       users_list = [],
       api_keys_list =
         [''{\"id\": \"650000000000000000000001\", \"keys\": [{\"key\": \"k1\", \"status\": \"valid\"}]}'']\<rparr>))
   \<and> (\<exists>d'. find (\<lambda>d. key_id d = ''650000000000000000000001'')
              (db_keys (snd (create_api_key (\<lambda>i. 3 * i) ''650000000000000000000003''
                 ''650000000000000000000001''
      \<lparr>db_users = [\<lparr>User_id = 1, User_name = ''Ann'', User_company = ''Acme'', User_status = active,
                    user_oid = ''650000000000000000000001''\<rparr>],
       db_keys = [\<lparr>key_oid = ''650000000000000000000002'', key_id = ''650000000000000000000001'',
                   keys = [\<lparr>key = ''k1'', status = ''valid''\<rparr>]\<rparr>],
       users_list = [],
       api_keys_list =
         [''{\"id\": \"650000000000000000000001\", \"keys\": [{\"key\": \"k1\", \"status\": \"valid\"}]}'']\<rparr>))) = Some d'
         \<and> api_keys_list (snd (create_api_key (\<lambda>i. 3 * i) ''650000000000000000000003''
                 ''650000000000000000000001''
      \<lparr>db_users = [\<lparr>User_id = 1, User_name = ''Ann'', User_company = ''Acme'', User_status = active,
                    user_oid = ''650000000000000000000001''\<rparr>],
       db_keys = [\<lparr>key_oid = ''650000000000000000000002'', key_id = ''650000000000000000000001'',
                   keys = [\<lparr>key = ''k1'', status = ''valid''\<rparr>]\<rparr>],
       users_list = [],
       api_keys_list =
         [''{\"id\": \"650000000000000000000001\", \"keys\": [{\"key\": \"k1\", \"status\": \"valid\"}]}'']\<rparr>))
            = rpush (key_doc_json d') [])
   \<and> (\<exists>d'. find (\<lambda>d. key_id d = ''650000000000000000000001'')
              (db_keys (snd (remove_api_key ''650000000000000000000001'' ''k1''
      \<lparr>db_users = [\<lparr>User_id = 1, User_name = ''Ann'', User_company = ''Acme'', User_status = active,
                    user_oid = ''650000000000000000000001''\<rparr>],
       db_keys = [\<lparr>key_oid = ''650000000000000000000002'', key_id = ''650000000000000000000001'',
                   keys = [\<lparr>key = ''k1'', status = ''valid''\<rparr>]\<rparr>],
       users_list = [],
       api_keys_list =
         [''{\"id\": \"650000000000000000000001\", \"keys\": [{\"key\": \"k1\", \"status\": \"valid\"}]}'']\<rparr>))) = Some d'
         \<and> api_keys_list (snd (remove_api_key ''650000000000000000000001'' ''k1''
      \<lparr>db_users = [\<lparr>User_id = 1, User_name = ''Ann'', User_company = ''Acme'', User_status = active,
                    user_oid = ''650000000000000000000001''\<rparr>],
       db_keys = [\<lparr>key_oid = ''650000000000000000000002'', key_id = ''650000000000000000000001'',
                   keys = [\<lparr>key = ''k1'', status = ''valid''\<rparr>]\<rparr>],
       users_list = [],
       api_keys_list =
         [''{\"id\": \"650000000000000000000001\", \"keys\": [{\"key\": \"k1\", \"status\": \"valid\"}]}'']\<rparr>))
            = rpush (api_json ''650000000000000000000001'' (keys d')) [])"
proof -
  let ?S = "\<lparr>db_users = [\<lparr>User_id = 1, User_name = ''Ann'', User_company = ''Acme'', User_status = active,
                    user_oid = ''650000000000000000000001''\<rparr>],
       db_keys = [\<lparr>key_oid = ''650000000000000000000002'', key_id = ''650000000000000000000001'',
                   keys = [\<lparr>key = ''k1'', status = ''valid''\<rparr>]\<rparr>],
       users_list = [],
       api_keys_list =
         [''{\"id\": \"650000000000000000000001\", \"keys\": [{\"key\": \"k1\", \"status\": \"valid\"}]}'']\<rparr>"
  let ?m = "''650000000000000000000001''"
  let ?r1 = "PDict [(''message'', PStr ''New API key created''),
                    (''new_key'', PStr (generate_api_key (\<lambda>i. 3 * i) 20))]"
  let ?r2 = "PDict [(''message'', PStr ''API key removed''), (''removed_key'', PStr ''k1'')]"
  have "fst (create_api_key (\<lambda>i. 3 * i) ''650000000000000000000003'' ?m ?S) = Inr ?r1"
    by code_simp
  then have h1: "create_api_key (\<lambda>i. 3 * i) ''650000000000000000000003'' ?m ?S
      = (Inr ?r1, snd (create_api_key (\<lambda>i. 3 * i) ''650000000000000000000003'' ?m ?S))"
    by (simp add: prod_eq_iff)
  have "fst (remove_api_key ?m ''k1'' ?S) = Inr ?r2"
    by code_simp
  then have h2: "remove_api_key ?m ''k1'' ?S = (Inr ?r2, snd (remove_api_key ?m ''k1'' ?S))"
    by (simp add: prod_eq_iff)
  have h3: "distinct (filter (has_id (PStr ?m)) (api_keys_list ?S))"
    by code_simp
  have w: "without_old ?m (api_keys_list ?S) = []"
    by code_simp
  from cache_update_after_mutation
         [of "\<lambda>i. 3 * i" "''650000000000000000000003''" ?m ?S ?r1
             "snd (create_api_key (\<lambda>i. 3 * i) ''650000000000000000000003'' ?m ?S)"] h1
  have c1: "\<exists>d'. find (\<lambda>d. key_id d = ?m)
              (db_keys (snd (create_api_key (\<lambda>i. 3 * i) ''650000000000000000000003'' ?m ?S))) = Some d'
         \<and> api_keys_list (snd (create_api_key (\<lambda>i. 3 * i) ''650000000000000000000003'' ?m ?S))
            = rpush (key_doc_json d') []"
    unfolding w by blast
  from cache_update_after_mutation
         [of "\<lambda>i. 3 * i" "''650000000000000000000003''" ?m ?S ?r2
             "snd (remove_api_key ?m ''k1'' ?S)" "''k1''"] h2
  have c2: "\<exists>d'. find (\<lambda>d. key_id d = ?m) (db_keys (snd (remove_api_key ?m ''k1'' ?S))) = Some d'
         \<and> api_keys_list (snd (remove_api_key ?m ''k1'' ?S)) = rpush (api_json ?m (keys d')) []"
    unfolding w by blast
  from h1 h2 h3 c1 c2 show ?thesis by blast
qed

section \<open>Lemmas on the state kept in step\<close>

lemma canon_dict_api_key: "canon (dict_api_key k) = dict_api_key k"
  by (simp add: dict_api_key_def)

lemma wf_api_keys: "list_all wf_pyval (map dict_api_key ks)"
  by (simp add: dict_api_key_def list_all_iff)

lemma map_canon_api_keys: "map canon (map dict_api_key ks) = map dict_api_key ks"
  by (simp add: canon_dict_api_key)

lemma loads_api_json:
  "json_loads (api_json m ks) = Inr (PDict [(''id'', PStr m), (''keys'', PList (map dict_api_key ks))])"
proof -
  have "wf_pyval (PDict (api_doc m ks))" "serializable (PDict (api_doc m ks))"
    using wf_api_keys [of ks] serializable_api_keys [of ks] by (simp_all add: api_doc_def)
  then have "json_loads (json_encode (PDict (api_doc m ks))) = Inr (canon (PDict (api_doc m ks)))"
    by (rule json_roundtrip)
  moreover have "canon (PDict (api_doc m ks)) = PDict [(''id'', PStr m), (''keys'', PList (map dict_api_key ks))]"
    using map_canon_api_keys [of ks] by (simp add: api_doc_def del: map_map)
  ultimately show ?thesis by (simp add: api_json_def)
qed

lemma loads_key_doc_json:
  "json_loads (key_doc_json d) =
     Inr (PDict [(''_id'', PStr (key_oid d)), (''id'', PStr (key_id d)),
                 (''keys'', PList (map dict_api_key (keys d)))])"
proof -
  let ?doc = "PDict ((''_id'', PStr (key_oid d)) # api_doc (key_id d) (keys d))"
  have "wf_pyval ?doc" "serializable ?doc"
    using wf_api_keys [of "keys d"] serializable_api_keys [of "keys d"] by (simp_all add: api_doc_def)
  then have "json_loads (json_encode ?doc) = Inr (canon ?doc)"
    by (rule json_roundtrip)
  moreover have "canon ?doc = PDict [(''_id'', PStr (key_oid d)), (''id'', PStr (key_id d)),
                 (''keys'', PList (map dict_api_key (keys d)))]"
    using map_canon_api_keys [of "keys d"] by (simp add: api_doc_def del: map_map)
  ultimately show ?thesis by (simp add: key_doc_json_def)
qed

lemma loads_user_json:
  "json_loads (user_json u h) =
     Inr (PDict [(''_id'', PStr h), (''company'', PStr (User_company u)), (''id'', PInt (User_id u)),
                 (''name'', PStr (User_name u)), (''status'', PStr (str_StatusEnum (User_status u)))])"
proof -
  let ?doc = "PDict (dict_User u @ [(''_id'', PStr h)])"
  have "wf_pyval ?doc" "serializable ?doc"
    by (simp_all add: dict_User_def)
  then have "json_loads (json_encode ?doc) = Inr (canon ?doc)"
    by (rule json_roundtrip)
  moreover have "canon ?doc = PDict [(''_id'', PStr h), (''company'', PStr (User_company u)),
                 (''id'', PInt (User_id u)), (''name'', PStr (User_name u)),
                 (''status'', PStr (str_StatusEnum (User_status u)))]"
    by (simp add: dict_User_def)
  ultimately show ?thesis by (simp add: user_json_def)
qed

lemma has_id_entry_id: "has_id x e = (is_doc_entry e \<and> entry_id e = Some x)"
  by (auto simp: has_id_def is_doc_entry_def entry_id_def split: sum.splits pyval.splits)

lemma entry_api_json [simp]:
  "is_doc_entry (api_json m ks)" "entry_id (api_json m ks) = Some (PStr m)"
  by (simp_all add: is_doc_entry_def entry_id_def loads_api_json)

lemma entry_key_doc_json [simp]:
  "is_doc_entry (key_doc_json d)" "entry_id (key_doc_json d) = Some (PStr (key_id d))"
  by (simp_all add: is_doc_entry_def entry_id_def loads_key_doc_json)

lemma entry_user_json [simp]:
  "is_doc_entry (user_json u h)" "entry_id (user_json u h) = Some (PInt (User_id u))"
  by (simp_all add: is_doc_entry_def entry_id_def loads_user_json)

lemma without_old_filter:
  assumes "distinct (map entry_id es)" and "list_all is_doc_entry es"
  shows "without_old m es = filter (\<lambda>e. \<not> has_id (PStr m) e) es"
proof (cases "find (has_id (PStr m)) es")
  case None
  then have "\<forall>e\<in>set es. \<not> has_id (PStr m) e" by (simp add: find_None_ball)
  then have "filter (\<lambda>e. \<not> has_id (PStr m) e) es = es" by (simp add: filter_id_conv)
  with None show ?thesis by (simp add: without_old_def)
next
  case (Some e)
  then have e: "has_id (PStr m) e" "e \<in> set es" by (auto dest: find_SomeD)
  have "has_id (PStr m) x = (x = e)" if "x \<in> set es" for x
  proof
    assume "has_id (PStr m) x"
    then have "entry_id x = entry_id e"
      using e(1) by (simp add: has_id_entry_id)
    with assms(1) that e(2) show "x = e"
      by (auto simp: distinct_map dest: inj_onD)
  next
    assume "x = e" with e(1) show "has_id (PStr m) x" by simp
  qed
  then have "filter (\<lambda>x. \<not> has_id (PStr m) x) es = filter (\<lambda>x. x \<noteq> e) es"
    by (intro filter_cong) auto
  also have "\<dots> = removeAll e es"
    by (induction es) auto
  finally show ?thesis using Some by (simp add: without_old_def)
qed

lemma remove_old_entry_consistent:
  assumes "distinct (map entry_id es)" and "list_all is_doc_entry es"
  shows "remove_old_entry m es = Inr (filter (\<lambda>e. \<not> has_id (PStr m) e) es)"
proof -
  obtain es' where r: "remove_old_entry m es = Inr es'"
    using remove_old_entry_docs [OF assms(2)] by blast
  then have "es' = without_old m es" by (rule remove_old_entry_without_old)
  with r show ?thesis using without_old_filter [OF assms] by simp
qed

lemma replaced_docs:
  "list_all is_doc_entry es \<Longrightarrow> is_doc_entry new \<Longrightarrow> list_all is_doc_entry (replaced m new es)"
  by (simp add: replaced_def list_all_iff)

lemma replaced_distinct:
  assumes "distinct (map entry_id es)" and "list_all is_doc_entry es"
    and "entry_id new = Some (PStr m)"
  shows "distinct (map entry_id (replaced m new es))"
proof -
  have "distinct (map entry_id (filter (\<lambda>e. \<not> has_id (PStr m) e) es))"
    using assms(1) by (rule distinct_map_filter)
  moreover have "entry_id new \<notin> entry_id ` set (filter (\<lambda>e. \<not> has_id (PStr m) e) es)"
    using assms(2,3) by (auto simp: has_id_entry_id list_all_iff)
  ultimately show ?thesis by (simp add: replaced_def)
qed

lemma replaced_find:
  assumes "has_id (PStr m) new"
  shows "find (has_id (PStr m)) (replaced m new es) = Some new"
proof -
  have "find (has_id (PStr m)) (filter (\<lambda>e. \<not> has_id (PStr m) e) es) = None"
    by (simp add: find_None_ball)
  then show ?thesis
    using assms unfolding replaced_def by (rule find_append_last)
qed

lemma find_append_other:
  "\<not> P new \<Longrightarrow> find P (xs @ [new]) = find P xs"
  by (induction xs) auto

lemma find_filter_other:
  "(\<And>x. P x \<Longrightarrow> Q x) \<Longrightarrow> find P (filter Q xs) = find P xs"
  by (induction xs) auto

lemma replaced_find_other:
  assumes "m' \<noteq> m" and "entry_id new = Some (PStr m')"
  shows "find (has_id (PStr m)) (replaced m' new es) = find (has_id (PStr m)) es"
proof -
  have "\<not> has_id (PStr m) new"
    using assms by (simp add: has_id_entry_id)
  moreover have "has_id (PStr m) x \<Longrightarrow> \<not> has_id (PStr m') x" for x
    using assms(1) by (auto simp: has_id_entry_id)
  ultimately show ?thesis
    by (simp add: replaced_def find_append_other find_filter_other)
qed

lemma consistentD:
  assumes "consistent s"
  shows "list_all is_doc_entry (api_keys_list s)"
    and "distinct (map entry_id (api_keys_list s))"
    and "\<And>e. e \<in> set (api_keys_list s) \<Longrightarrow> \<exists>d\<in>set (db_keys s). entry_id e = Some (PStr (key_id d))"
    and "distinct (map key_id (db_keys s))"
    and "\<And>d. d \<in> set (db_keys s) \<Longrightarrow> \<exists>u\<in>set (db_users s). ObjectId (key_id d) = Inr (user_oid u)"
    and "list_all is_doc_entry (users_list s)"
    and "\<And>e. e \<in> set (users_list s) \<Longrightarrow> \<exists>u\<in>set (db_users s). entry_id e = Some (PInt (User_id u))"
  using assms by (auto simp: consistent_def list_all_iff list_ex_iff)

lemma consistentI:
  assumes "list_all is_doc_entry (api_keys_list s)"
    and "distinct (map entry_id (api_keys_list s))"
    and "\<And>e. e \<in> set (api_keys_list s) \<Longrightarrow> \<exists>d\<in>set (db_keys s). entry_id e = Some (PStr (key_id d))"
    and "distinct (map key_id (db_keys s))"
    and "\<And>d. d \<in> set (db_keys s) \<Longrightarrow> \<exists>u\<in>set (db_users s). ObjectId (key_id d) = Inr (user_oid u)"
    and "list_all is_doc_entry (users_list s)"
    and "\<And>e. e \<in> set (users_list s) \<Longrightarrow> \<exists>u\<in>set (db_users s). entry_id e = Some (PInt (User_id u))"
  shows "consistent s"
  using assms by (auto simp: consistent_def list_all_iff list_ex_iff)

lemma consistent_init: "consistent init_state"
  by (simp add: consistent_def init_state_def)

lemma map_key_id_update_one_keys [simp]:
  "map key_id (update_one_keys m ks ds) = map key_id ds"
  by (induction ds) auto

lemma set_replaced:
  "set (replaced m new es) \<subseteq> insert new (set es)"
  by (auto simp: replaced_def)

text \<open>The routes on a consistent state.\<close>

lemma create_api_key_consistent:
  assumes c: "consistent s" and o: "ObjectId mongo_id = Inr oid"
    and u: "find (\<lambda>d. user_oid d = oid) (db_users s) = Some u"
  shows "\<exists>d' ks.
     d' = (case find (\<lambda>d. key_id d = mongo_id) (db_keys s) of
             None \<Rightarrow> \<lparr>key_oid = oid_k, key_id = mongo_id, keys = [valid_key (generate_api_key rnd 20)]\<rparr>
           | Some d \<Rightarrow> d\<lparr>keys := keys d @ [valid_key (generate_api_key rnd 20)]\<rparr>)
     \<and> ks = (case find (\<lambda>d. key_id d = mongo_id) (db_keys s) of
               None \<Rightarrow> db_keys s @ [d']
             | Some d \<Rightarrow> update_one_keys mongo_id (keys d') (db_keys s))
     \<and> key_id d' = mongo_id
     \<and> find (\<lambda>d. key_id d = mongo_id) ks = Some d'
     \<and> create_api_key rnd oid_k mongo_id s =
          (Inr (PDict [(''message'', PStr ''New API key created''),
                       (''new_key'', PStr (generate_api_key rnd 20))]),
           s\<lparr>db_keys := ks,
             api_keys_list := replaced mongo_id (key_doc_json d') (api_keys_list s)\<rparr>)"
proof -
  have r: "remove_old_entry mongo_id (api_keys_list s)
             = Inr (filter (\<lambda>e. \<not> has_id (PStr mongo_id) e) (api_keys_list s))"
    using consistentD(1,2) [OF c] by (intro remove_old_entry_consistent)
  have kid: "key_id (case find (\<lambda>d. key_id d = mongo_id) (db_keys s) of
             None \<Rightarrow> \<lparr>key_oid = oid_k, key_id = mongo_id, keys = [valid_key (generate_api_key rnd 20)]\<rparr>
           | Some d \<Rightarrow> d\<lparr>keys := keys d @ [valid_key (generate_api_key rnd 20)]\<rparr>) = mongo_id"
    by (auto split: option.splits dest: find_SomeD)
  show ?thesis
    using create_api_key_found [OF o u, of oid_k rnd] kid
    by (auto simp: r replaced_def)
qed

lemma remove_api_key_consistent:
  assumes c: "consistent s" and d: "find (\<lambda>d. key_id d = mongo_id) (db_keys s) = Some d"
    and ex: "\<exists>x\<in>set (keys d). key x = k"
  shows "remove_api_key mongo_id k s =
     (Inr (PDict [(''message'', PStr ''API key removed''), (''removed_key'', PStr k)]),
      s\<lparr>db_keys := update_one_keys mongo_id (filter (\<lambda>x. key x \<noteq> k) (keys d)) (db_keys s),
        api_keys_list := replaced mongo_id (api_json mongo_id (filter (\<lambda>x. key x \<noteq> k) (keys d)))
                           (api_keys_list s)\<rparr>)"
proof -
  have r: "remove_old_entry mongo_id (api_keys_list s)
             = Inr (filter (\<lambda>e. \<not> has_id (PStr mongo_id) e) (api_keys_list s))"
    using consistentD(1,2) [OF c] by (intro remove_old_entry_consistent)
  show ?thesis
    using remove_api_key_found [OF d ex] by (simp add: r replaced_def)
qed

lemma fresh_key_id:
  assumes c: "consistent s" and o: "is_oid oid_u" and f: "oid_u \<notin> user_oid ` set (db_users s)"
  shows "oid_u \<notin> key_id ` set (db_keys s)"
proof
  assume "oid_u \<in> key_id ` set (db_keys s)"
  then obtain d where d: "d \<in> set (db_keys s)" "key_id d = oid_u" by auto
  then obtain u where "u \<in> set (db_users s)" "ObjectId (key_id d) = Inr (user_oid u)"
    using consistentD(5) [OF c] by blast
  with d(2) o have "user_oid u = oid_u" by (simp add: is_oid_def)
  with \<open>u \<in> set (db_users s)\<close> f show False by auto
qed

lemma fresh_entry_id:
  assumes c: "consistent s" and o: "is_oid oid_u" and f: "oid_u \<notin> user_oid ` set (db_users s)"
  shows "Some (PStr oid_u) \<notin> entry_id ` set (api_keys_list s)"
proof
  assume "Some (PStr oid_u) \<in> entry_id ` set (api_keys_list s)"
  then obtain e where e: "e \<in> set (api_keys_list s)" "entry_id e = Some (PStr oid_u)" by auto
  then obtain d where "d \<in> set (db_keys s)" "entry_id e = Some (PStr (key_id d))"
    using consistentD(3) [OF c] by blast
  with e(2) have "oid_u \<in> key_id ` set (db_keys s)" by auto
  with fresh_key_id [OF c o f] show False by simp
qed

lemma new_user_entry_id:
  assumes c: "consistent s" and n: "\<forall>d\<in>set (db_users s). User_id d \<noteq> i"
  shows "Some (PInt i) \<notin> entry_id ` set (users_list s)"
proof
  assume "Some (PInt i) \<in> entry_id ` set (users_list s)"
  then obtain e where e: "e \<in> set (users_list s)" "entry_id e = Some (PInt i)" by auto
  then obtain u where "u \<in> set (db_users s)" "entry_id e = Some (PInt (User_id u))"
    using consistentD(7) [OF c] by blast
  with e(2) n show False by auto
qed

lemma removeAll_absent: "x \<notin> set xs \<Longrightarrow> removeAll x xs = xs"
  by (induction xs) auto

lemma create_user_consistent:
  assumes c: "consistent s" and n: "\<forall>d\<in>set (db_users s). User_id d \<noteq> User_id u"
    and o: "is_oid oid_u" and f: "oid_u \<notin> user_oid ` set (db_users s)"
    and b: "bson_int (User_id u)"
  shows "create_user rnd oid_u oid_k u s =
     (Inr (PDict [(''message'', PStr ''User created''),
                  (''user'', PDict (dict_User u @ [(''_id'', PStr oid_u)])),
                  (''api_key'', PStr (generate_api_key rnd 20))]),
      s\<lparr>db_users := db_users s @ [User.extend u (user_doc.fields oid_u)],
        db_keys := db_keys s @ [\<lparr>key_oid = oid_k, key_id = oid_u, keys = [valid_key (generate_api_key rnd 20)]\<rparr>],
        users_list := users_list s @ [user_json u oid_u],
        api_keys_list := api_keys_list s @ [api_json oid_u [valid_key (generate_api_key rnd 20)]]\<rparr>)"
proof -
  have "find (\<lambda>d. User_id d = User_id u) (db_users s) = None"
    using n by (simp add: find_None_ball)
  moreover have "user_json u oid_u \<notin> set (users_list s)"
    using new_user_entry_id [OF c n] by (auto simp: image_iff)
  moreover have "api_json oid_u [valid_key (generate_api_key rnd 20)] \<notin> set (api_keys_list s)"
    using fresh_entry_id [OF c o f] by (auto simp: image_iff)
  ultimately show ?thesis
    using b by (simp add: create_user_ok removeAll_absent)
qed

lemma consistent_create_api_key:
  assumes c: "consistent s"
  shows "consistent (snd (create_api_key rnd oid_k mongo_id s))"
proof (cases "ObjectId mongo_id")
  case (Inl e)
  then show ?thesis using c by (simp add: create_api_key_invalid)
next
  case (Inr oid)
  show ?thesis
  proof (cases "find (\<lambda>d. user_oid d = oid) (db_users s)")
    case None
    then show ?thesis using c Inr by (simp add: create_api_key_no_user)
  next
    case (Some u)
    from create_api_key_consistent [OF c Inr Some, of oid_k rnd]
    obtain d' ks where
      ks: "ks = (case find (\<lambda>d. key_id d = mongo_id) (db_keys s) of
               None \<Rightarrow> db_keys s @ [d']
             | Some d \<Rightarrow> update_one_keys mongo_id (keys d') (db_keys s))"
      and kid: "key_id d' = mongo_id"
      and fd: "find (\<lambda>d. key_id d = mongo_id) ks = Some d'"
      and res: "snd (create_api_key rnd oid_k mongo_id s) =
           s\<lparr>db_keys := ks, api_keys_list := replaced mongo_id (key_doc_json d') (api_keys_list s)\<rparr>"
      by auto
    have ids: "map key_id ks = map key_id (db_keys s) \<or>
               (find (\<lambda>d. key_id d = mongo_id) (db_keys s) = None \<and> map key_id ks = map key_id (db_keys s) @ [mongo_id])"
      using ks kid by (auto split: option.splits)
    have sup: "key_id ` set (db_keys s) \<subseteq> key_id ` set ks"
      using ids by (metis image_set set_append subset_refl sup_ge1)
    have sub: "key_id ` set ks \<subseteq> insert mongo_id (key_id ` set (db_keys s))"
    proof (rule disjE [OF ids])
      assume "map key_id ks = map key_id (db_keys s)"
      then have "set (map key_id ks) = set (map key_id (db_keys s))" by (rule arg_cong)
      then have "key_id ` set ks = key_id ` set (db_keys s)" by (simp only: set_map)
      then show ?thesis by auto
    next
      assume "find (\<lambda>d. key_id d = mongo_id) (db_keys s) = None
                \<and> map key_id ks = map key_id (db_keys s) @ [mongo_id]"
      then have "set (map key_id ks) = set (map key_id (db_keys s) @ [mongo_id])" by simp
      then have "key_id ` set ks = insert mongo_id (key_id ` set (db_keys s))"
        by (simp only: set_map set_append list.set Un_insert_right Un_empty_right)
      then show ?thesis by auto
    qed
    have uin: "u \<in> set (db_users s)" "user_oid u = oid"
      using Some by (auto dest: find_SomeD)
    have "consistent (s\<lparr>db_keys := ks, api_keys_list := replaced mongo_id (key_doc_json d') (api_keys_list s)\<rparr>)"
    proof (rule consistentI)
      show "list_all is_doc_entry (api_keys_list (s\<lparr>db_keys := ks,
              api_keys_list := replaced mongo_id (key_doc_json d') (api_keys_list s)\<rparr>))"
        using consistentD(1) [OF c] by (simp add: replaced_docs)
      show "distinct (map entry_id (api_keys_list (s\<lparr>db_keys := ks,
              api_keys_list := replaced mongo_id (key_doc_json d') (api_keys_list s)\<rparr>)))"
        using consistentD(1,2) [OF c] kid by (simp add: replaced_distinct)
      show "distinct (map key_id (db_keys (s\<lparr>db_keys := ks,
              api_keys_list := replaced mongo_id (key_doc_json d') (api_keys_list s)\<rparr>)))"
        using ids consistentD(4) [OF c] by (auto simp: find_None_ball)
      show "list_all is_doc_entry (users_list (s\<lparr>db_keys := ks,
              api_keys_list := replaced mongo_id (key_doc_json d') (api_keys_list s)\<rparr>))"
        using consistentD(6) [OF c] by simp
    next
      fix e assume "e \<in> set (api_keys_list (s\<lparr>db_keys := ks,
              api_keys_list := replaced mongo_id (key_doc_json d') (api_keys_list s)\<rparr>))"
      then have "e = key_doc_json d' \<or> e \<in> set (api_keys_list s)"
        using set_replaced [of mongo_id "key_doc_json d'" "api_keys_list s"] by auto
      then have "\<exists>m\<in>key_id ` set ks. entry_id e = Some (PStr m)"
      proof
        assume "e = key_doc_json d'"
        moreover have "d' \<in> set ks" using fd by (auto dest: find_SomeD)
        ultimately show ?thesis by auto
      next
        assume "e \<in> set (api_keys_list s)"
        then obtain d where "d \<in> set (db_keys s)" "entry_id e = Some (PStr (key_id d))"
          using consistentD(3) [OF c] by blast
        with sup show ?thesis by auto
      qed
      then show "\<exists>d\<in>set (db_keys (s\<lparr>db_keys := ks,
              api_keys_list := replaced mongo_id (key_doc_json d') (api_keys_list s)\<rparr>)).
              entry_id e = Some (PStr (key_id d))"
        by auto
    next
      fix d assume "d \<in> set (db_keys (s\<lparr>db_keys := ks,
              api_keys_list := replaced mongo_id (key_doc_json d') (api_keys_list s)\<rparr>))"
      then have "key_id d \<in> key_id ` set ks" by auto
      then have "key_id d = mongo_id \<or> key_id d \<in> key_id ` set (db_keys s)"
        using sub by auto
      then have "\<exists>u\<in>set (db_users s). ObjectId (key_id d) = Inr (user_oid u)"
      proof
        assume "key_id d = mongo_id"
        with Inr uin show ?thesis by auto
      next
        assume "key_id d \<in> key_id ` set (db_keys s)"
        then obtain d0 where "d0 \<in> set (db_keys s)" "key_id d0 = key_id d" by auto
        then show ?thesis using consistentD(5) [OF c, of d0] by simp
      qed
      then show "\<exists>u\<in>set (db_users (s\<lparr>db_keys := ks,
              api_keys_list := replaced mongo_id (key_doc_json d') (api_keys_list s)\<rparr>)).
              ObjectId (key_id d) = Inr (user_oid u)"
        by simp
    next
      fix e assume "e \<in> set (users_list (s\<lparr>db_keys := ks,
              api_keys_list := replaced mongo_id (key_doc_json d') (api_keys_list s)\<rparr>))"
      then show "\<exists>u\<in>set (db_users (s\<lparr>db_keys := ks,
              api_keys_list := replaced mongo_id (key_doc_json d') (api_keys_list s)\<rparr>)).
              entry_id e = Some (PInt (User_id u))"
        using consistentD(7) [OF c, of e] by simp
    qed
    with res show ?thesis by simp
  qed
qed

lemma consistent_remove_api_key:
  assumes c: "consistent s"
  shows "consistent (snd (remove_api_key mongo_id k s))"
proof (cases "find (\<lambda>d. key_id d = mongo_id) (db_keys s)")
  case None
  then show ?thesis using c by (simp add: remove_api_key_no_doc)
next
  case (Some d)
  show ?thesis
  proof (cases "\<exists>x\<in>set (keys d). key x = k")
    case False
    then have "\<forall>x\<in>set (keys d). key x \<noteq> k" by simp
    from remove_api_key_no_key [OF Some this] c show ?thesis by simp
  next
    case True
    let ?ks = "update_one_keys mongo_id (filter (\<lambda>x. key x \<noteq> k) (keys d)) (db_keys s)"
    let ?new = "api_json mongo_id (filter (\<lambda>x. key x \<noteq> k) (keys d))"
    let ?s' = "s\<lparr>db_keys := ?ks, api_keys_list := replaced mongo_id ?new (api_keys_list s)\<rparr>"
    have res: "snd (remove_api_key mongo_id k s) = ?s'"
      using remove_api_key_consistent [OF c Some True] by simp
    have ids: "key_id ` set ?ks = key_id ` set (db_keys s)"
    proof -
      have "set (map key_id ?ks) = set (map key_id (db_keys s))" by simp
      then show ?thesis by (simp only: set_map)
    qed
    have min: "mongo_id \<in> key_id ` set (db_keys s)"
      using Some by (auto dest: find_SomeD)
    have "consistent ?s'"
    proof (rule consistentI)
      show "list_all is_doc_entry (api_keys_list ?s')"
        using consistentD(1) [OF c] by (simp add: replaced_docs)
      show "distinct (map entry_id (api_keys_list ?s'))"
        using consistentD(1,2) [OF c] by (simp add: replaced_distinct)
      show "distinct (map key_id (db_keys ?s'))"
        using consistentD(4) [OF c] by simp
      show "list_all is_doc_entry (users_list ?s')"
        using consistentD(6) [OF c] by simp
    next
      fix e assume "e \<in> set (api_keys_list ?s')"
      then have "e = ?new \<or> e \<in> set (api_keys_list s)"
        using set_replaced [of mongo_id ?new "api_keys_list s"] by auto
      then have "\<exists>m\<in>key_id ` set (db_keys s). entry_id e = Some (PStr m)"
      proof
        assume "e = ?new"
        with min show ?thesis by simp
      next
        assume "e \<in> set (api_keys_list s)"
        then show ?thesis using consistentD(3) [OF c] by blast
      qed
      then have "\<exists>m\<in>key_id ` set ?ks. entry_id e = Some (PStr m)"
        by (simp only: ids)
      then show "\<exists>d\<in>set (db_keys ?s'). entry_id e = Some (PStr (key_id d))"
        by auto
    next
      fix d0 assume "d0 \<in> set (db_keys ?s')"
      then have "key_id d0 \<in> key_id ` set ?ks" by auto
      then have "key_id d0 \<in> key_id ` set (db_keys s)" by (simp only: ids)
      then obtain d1 where "d1 \<in> set (db_keys s)" "key_id d1 = key_id d0" by auto
      then show "\<exists>u\<in>set (db_users ?s'). ObjectId (key_id d0) = Inr (user_oid u)"
        using consistentD(5) [OF c, of d1] by simp
    next
      fix e assume "e \<in> set (users_list ?s')"
      then show "\<exists>u\<in>set (db_users ?s'). entry_id e = Some (PInt (User_id u))"
        using consistentD(7) [OF c, of e] by simp
    qed
    with res show ?thesis by simp
  qed
qed

lemma consistent_create_user:
  assumes c: "consistent s" and o: "is_oid oid_u" and f: "oid_u \<notin> user_oid ` set (db_users s)"
  shows "consistent (snd (create_user rnd oid_u oid_k u s))"
proof (cases "bson_int (User_id u) \<and> find (\<lambda>d. User_id d = User_id u) (db_users s) = None")
  case False
  have "snd (create_user rnd oid_u oid_k u s) = s"
  proof (cases "bson_int (User_id u)")
    case True
    with False obtain d where "find (\<lambda>d. User_id d = User_id u) (db_users s) = Some d"
      by auto
    with True show ?thesis by (simp add: create_user_conflict)
  next
    case False
    then show ?thesis by (simp add: create_user_overflow)
  qed
  then show ?thesis using c by simp
next
  case True
  then have b: "bson_int (User_id u)" and n: "\<forall>d\<in>set (db_users s). User_id d \<noteq> User_id u"
    by (simp_all add: find_None_ball)
  let ?ud = "User.extend u (user_doc.fields oid_u)"
  let ?kd = "\<lparr>key_oid = oid_k, key_id = oid_u, keys = [valid_key (generate_api_key rnd 20)]\<rparr>"
  let ?uj = "user_json u oid_u"
  let ?aj = "api_json oid_u [valid_key (generate_api_key rnd 20)]"
  let ?s' = "s\<lparr>db_users := db_users s @ [?ud], db_keys := db_keys s @ [?kd],
               users_list := users_list s @ [?uj], api_keys_list := api_keys_list s @ [?aj]\<rparr>"
  have res: "snd (create_user rnd oid_u oid_k u s) = ?s'"
    using create_user_consistent [OF c n o f b] by simp
  have ud: "User_id ?ud = User_id u" "user_oid ?ud = oid_u"
    by (simp_all add: User.defs user_doc.defs)
  have "consistent ?s'"
  proof (rule consistentI)
    show "list_all is_doc_entry (api_keys_list ?s')"
      using consistentD(1) [OF c] by simp
    show "distinct (map entry_id (api_keys_list ?s'))"
      using consistentD(2) [OF c] fresh_entry_id [OF c o f] by simp
    show "distinct (map key_id (db_keys ?s'))"
      using consistentD(4) [OF c] fresh_key_id [OF c o f] by simp
    show "list_all is_doc_entry (users_list ?s')"
      using consistentD(6) [OF c] by simp
  next
    fix e assume "e \<in> set (api_keys_list ?s')"
    then have "e = ?aj \<or> e \<in> set (api_keys_list s)" by auto
    then show "\<exists>d\<in>set (db_keys ?s'). entry_id e = Some (PStr (key_id d))"
    proof
      assume "e = ?aj" then show ?thesis by simp
    next
      assume "e \<in> set (api_keys_list s)"
      then show ?thesis using consistentD(3) [OF c, of e] by auto
    qed
  next
    fix d assume "d \<in> set (db_keys ?s')"
    then have "d = ?kd \<or> d \<in> set (db_keys s)" by auto
    then show "\<exists>u\<in>set (db_users ?s'). ObjectId (key_id d) = Inr (user_oid u)"
    proof
      assume "d = ?kd"
      then have "ObjectId (key_id d) = Inr (user_oid ?ud)"
        using o ud by (simp add: is_oid_def)
      then show ?thesis by auto
    next
      assume "d \<in> set (db_keys s)"
      then show ?thesis using consistentD(5) [OF c, of d] by auto
    qed
  next
    fix e assume "e \<in> set (users_list ?s')"
    then have "e = ?uj \<or> e \<in> set (users_list s)" by auto
    then show "\<exists>u\<in>set (db_users ?s'). entry_id e = Some (PInt (User_id u))"
    proof
      assume "e = ?uj"
      then have "entry_id e = Some (PInt (User_id ?ud))" using ud by simp
      then show ?thesis by auto
    next
      assume "e \<in> set (users_list s)"
      then show ?thesis using consistentD(7) [OF c, of e] by auto
    qed
  qed
  with res show ?thesis by simp
qed

lemma reachable_consistent: "reachable s \<Longrightarrow> consistent s"
proof (induction rule: reachable.induct)
  case init
  show ?case by (rule consistent_init)
next
  case (user s oid_u rnd oid_k u)
  then show ?case by (simp add: consistent_create_user)
next
  case (new_key s rnd oid_k mongo_id)
  then show ?case by (simp add: consistent_create_api_key)
next
  case (del_key s mongo_id key_to_remove)
  then show ?case by (simp add: consistent_remove_api_key)
qed

lemma list_all_takeWhile: "list_all P xs \<Longrightarrow> list_all P (takeWhile Q xs)"
  by (induction xs) auto

lemma list_api_keys_find:
  assumes "list_all is_doc_entry (api_keys_list s)"
  shows "list_api_keys m s =
     (case find (has_id (PStr m)) (api_keys_list s) of
        None \<Rightarrow> Inl (HTTPException 404 ''API keys not found in Redis'')
      | Some e \<Rightarrow> json_loads e)"
  using first_match_as_find [OF list_all_takeWhile [OF assms], of "PStr m"]
  by (auto simp: list_api_keys_def split: option.splits sum.splits)

lemma get_user_find:
  assumes "list_all is_doc_entry (users_list s)"
  shows "get_user i s =
     (case find (has_id (PInt i)) (users_list s) of
        None \<Rightarrow> Inl (HTTPException 404 ''User not found in Redis'')
      | Some e \<Rightarrow> json_loads e)"
  using first_match_as_find [OF list_all_takeWhile [OF assms], of "PInt i"]
  by (auto simp: get_user_def split: option.splits sum.splits)

lemma list_api_keys_replaced:
  assumes "list_all is_doc_entry es" and "is_doc_entry new" and "entry_id new = Some (PStr m)"
  shows "list_api_keys m (s\<lparr>api_keys_list := replaced m new es\<rparr>) = json_loads new"
proof -
  have "has_id (PStr m) new" using assms(2,3) by (simp add: has_id_entry_id)
  then have "find (has_id (PStr m)) (replaced m new es) = Some new" by (rule replaced_find)
  moreover have "list_all is_doc_entry (replaced m new es)"
    using assms(1,2) by (rule replaced_docs)
  ultimately show ?thesis by (simp add: list_api_keys_find)
qed

lemma list_api_keys_replaced_other:
  assumes "list_all is_doc_entry es" and "is_doc_entry new" and "entry_id new = Some (PStr m')"
    and "m' \<noteq> m" and "api_keys_list s = es"
  shows "list_api_keys m (s\<lparr>db_keys := ks, api_keys_list := replaced m' new es\<rparr>) = list_api_keys m s"
proof -
  have "list_all is_doc_entry (replaced m' new es)"
    using assms(1,2) by (rule replaced_docs)
  then show ?thesis
    using assms(1,5) replaced_find_other [OF assms(4,3), of es]
    by (simp add: list_api_keys_find)
qed

text \<open>The user cache after a creation.\<close>

lemma get_user_created:
  assumes c: "consistent s" and n: "\<forall>d\<in>set (db_users s). User_id d \<noteq> User_id u"
    and b: "bson_int (User_id u)"
  shows "get_user (User_id u) (snd (create_user rnd oid_u oid_k u s)) = json_loads (user_json u oid_u)"
proof -
  let ?uj = "user_json u oid_u"
  have f: "find (\<lambda>d. User_id d = User_id u) (db_users s) = None"
    using n by (simp add: find_None_ball)
  have ul: "users_list (snd (create_user rnd oid_u oid_k u s)) = removeAll ?uj (users_list s) @ [?uj]"
    using f b by (simp add: create_user_ok)
  have "?uj \<notin> set (users_list s)"
    using new_user_entry_id [OF c n] by (auto simp: image_iff)
  then have ul': "users_list (snd (create_user rnd oid_u oid_k u s)) = users_list s @ [?uj]"
    using ul by (simp add: removeAll_absent)
  have "\<forall>e\<in>set (users_list s). \<not> has_id (PInt (User_id u)) e"
    using new_user_entry_id [OF c n] by (auto simp: has_id_entry_id image_iff)
  then have "find (has_id (PInt (User_id u))) (users_list s) = None"
    by (simp add: find_None_ball)
  moreover have "has_id (PInt (User_id u)) ?uj"
    by (simp add: has_id_entry_id)
  ultimately have "find (has_id (PInt (User_id u))) (users_list s @ [?uj]) = Some ?uj"
    by (rule find_append_last)
  moreover have "list_all is_doc_entry (users_list s @ [?uj])"
    using consistentD(6) [OF c] by simp
  ultimately show ?thesis
    using ul' by (simp add: get_user_find)
qed

lemma filter_single_out:
  "key x = k \<Longrightarrow> \<forall>y\<in>set (xs @ ys). key y \<noteq> k \<Longrightarrow>
   filter (\<lambda>y. key y \<noteq> k) (xs @ x # ys) = xs @ ys"
  by (simp add: filter_id_conv)

lemma remove_api_key_404:
  "(\<exists>msg. fst (remove_api_key m k s) = Inl (HTTPException 404 msg))
     = (case find (\<lambda>d. key_id d = m) (db_keys s) of
          None \<Rightarrow> True
        | Some d \<Rightarrow> \<forall>x\<in>set (keys d). key x \<noteq> k)"
proof (cases "find (\<lambda>d. key_id d = m) (db_keys s)")
  case None
  then show ?thesis by (simp add: remove_api_key_no_doc)
next
  case (Some d)
  show ?thesis
  proof (cases "\<exists>x\<in>set (keys d). key x = k")
    case False
    then have "\<forall>x\<in>set (keys d). key x \<noteq> k" by simp
    with remove_api_key_no_key [OF Some this] Some show ?thesis by simp
  next
    case True
    have "\<not> (\<exists>msg. fst (remove_api_key m k s) = Inl (HTTPException 404 msg))"
      using remove_api_key_found [OF Some True]
      by (auto split: sum.splits dest: remove_old_entry_error)
    with True Some show ?thesis by auto
  qed
qed

lemma has_field_simps [simp]:
  "has_field (PDict kvs) k = (map_of kvs k \<noteq> None)"
  by (simp add: has_field_def)

text \<open>The routes on a cache list with a single entry for the id.\<close>

lemma length_le_one_eq: "length xs \<le> 1 \<Longrightarrow> x \<in> set xs \<Longrightarrow> y \<in> set xs \<Longrightarrow> x = y"
  by (cases xs) auto

lemma without_old_single:
  assumes "length (remdups (filter (has_id (PStr m)) es)) \<le> 1"
  shows "without_old m es = filter (\<lambda>e. \<not> has_id (PStr m) e) es"
proof (cases "find (has_id (PStr m)) es")
  case None
  then have "\<forall>e\<in>set es. \<not> has_id (PStr m) e" by (simp add: find_None_ball)
  then have "filter (\<lambda>e. \<not> has_id (PStr m) e) es = es" by (simp add: filter_id_conv)
  with None show ?thesis by (simp add: without_old_def)
next
  case (Some e)
  then have e: "has_id (PStr m) e" "e \<in> set es" by (auto dest: find_SomeD)
  then have e': "e \<in> set (remdups (filter (has_id (PStr m)) es))" by simp
  have "has_id (PStr m) x = (x = e)" if "x \<in> set es" for x
  proof
    assume "has_id (PStr m) x"
    with that have "x \<in> set (remdups (filter (has_id (PStr m)) es))" by simp
    with assms show "x = e" using e' by (rule length_le_one_eq)
  next
    assume "x = e" with e(1) show "has_id (PStr m) x" by simp
  qed
  then have "filter (\<lambda>x. \<not> has_id (PStr m) x) es = filter (\<lambda>x. x \<noteq> e) es"
    by (intro filter_cong) auto
  also have "\<dots> = removeAll e es"
    by (induction es) auto
  finally show ?thesis using Some by (simp add: without_old_def)
qed

lemma remove_old_entry_single:
  assumes "single_entry m es"
  shows "remove_old_entry m es = Inr (filter (\<lambda>e. \<not> has_id (PStr m) e) es)"
proof -
  from assms have d: "list_all is_doc_entry es"
    and l: "length (remdups (filter (has_id (PStr m)) es)) \<le> 1"
    by (simp_all add: single_entry_def)
  obtain es' where r: "remove_old_entry m es = Inr es'"
    using remove_old_entry_docs [OF d] by blast
  then have "es' = without_old m es" by (rule remove_old_entry_without_old)
  with r show ?thesis using without_old_single [OF l] by simp
qed

lemma filter_same_key_le_one:
  "distinct (map f xs) \<Longrightarrow> \<forall>x\<in>set xs. P x \<longrightarrow> f x = c \<Longrightarrow> length (filter P xs) \<le> 1"
proof (induction xs)
  case Nil
  show ?case by simp
next
  case (Cons a xs)
  show ?case
  proof (cases "P a")
    case False
    with Cons show ?thesis by simp
  next
    case True
    with Cons.prems have fa: "f a = c" "f a \<notin> f ` set xs" by simp_all
    have "\<not> P x" if "x \<in> set xs" for x
    proof
      assume "P x"
      with that Cons.prems(2) have "f x = c" by simp
      with fa(1) have "f a = f x" by simp
      with that fa(2) show False by (auto simp: image_iff)
    qed
    then have "filter P xs = []" by (simp add: filter_empty_conv)
    with True show ?thesis by simp
  qed
qed

lemma consistent_single_entry:
  assumes "consistent s"
  shows "single_entry m (api_keys_list s)"
proof -
  have a: "length (filter (has_id (PStr m)) (api_keys_list s)) \<le> 1"
    using consistentD(2) [OF assms]
    by (rule filter_same_key_le_one [where c = "Some (PStr m)"]) (simp add: has_id_entry_id)
  have "length (remdups (filter (has_id (PStr m)) (api_keys_list s))) \<le> 1"
    using le_trans [OF length_remdups_leq a] .
  then show ?thesis
    using consistentD(1) [OF assms] by (simp add: single_entry_def)
qed

lemma reachable_single_entry: "reachable s \<Longrightarrow> single_entry m (api_keys_list s)"
  by (rule consistent_single_entry [OF reachable_consistent])

lemma create_api_key_success:
  assumes a: "create_api_key rnd oid_k m s = (Inr r, s')"
  shows "\<exists>d' es. find (\<lambda>d. key_id d = m) (db_keys s') = Some d' \<and> key_id d' = m
            \<and> remove_old_entry m (api_keys_list s) = Inr es
            \<and> api_keys_list s' = es @ [key_doc_json d']"
proof -
  from a obtain oid where o: "ObjectId m = Inr oid"
    by (cases "ObjectId m") (auto simp: create_api_key_invalid)
  with a obtain u where u: "find (\<lambda>d. user_oid d = oid) (db_users s) = Some u"
    by (cases "find (\<lambda>d. user_oid d = oid) (db_users s)") (auto simp: create_api_key_no_user)
  from create_api_key_found [OF o u, where rnd = rnd and oid_k = oid_k]
  obtain d' ks where fd: "find (\<lambda>d. key_id d = m) ks = Some d'"
    and eq: "create_api_key rnd oid_k m s =
        (case remove_old_entry m (api_keys_list s) of
           Inl e \<Rightarrow> (Inl e, s\<lparr>db_keys := ks\<rparr>)
         | Inr es \<Rightarrow>
             (Inr (PDict [(''message'', PStr ''New API key created''),
                          (''new_key'', PStr (generate_api_key rnd 20))]),
              s\<lparr>db_keys := ks, api_keys_list := es @ [key_doc_json d']\<rparr>))"
    by blast
  from fd have kid: "key_id d' = m" by (auto dest: find_SomeD)
  show ?thesis
  proof (cases "remove_old_entry m (api_keys_list s)")
    case (Inl e)
    with eq a show ?thesis by simp
  next
    case (Inr es)
    with eq a have "s' = s\<lparr>db_keys := ks, api_keys_list := es @ [key_doc_json d']\<rparr>" by simp
    with fd kid Inr show ?thesis by simp
  qed
qed

lemma remove_api_key_success:
  assumes a: "remove_api_key m k s = (Inr r, s')"
  shows "\<exists>d es. find (\<lambda>d. key_id d = m) (db_keys s) = Some d \<and> (\<exists>x\<in>set (keys d). key x = k)
            \<and> remove_old_entry m (api_keys_list s) = Inr es
            \<and> db_keys s' = update_one_keys m (filter (\<lambda>x. key x \<noteq> k) (keys d)) (db_keys s)
            \<and> api_keys_list s' = es @ [api_json m (filter (\<lambda>x. key x \<noteq> k) (keys d))]"
proof -
  from a obtain d where d: "find (\<lambda>d. key_id d = m) (db_keys s) = Some d"
    by (cases "find (\<lambda>d. key_id d = m) (db_keys s)") (auto simp: remove_api_key_no_doc)
  have ex: "\<exists>x\<in>set (keys d). key x = k"
  proof (rule ccontr)
    assume "\<not> (\<exists>x\<in>set (keys d). key x = k)"
    then have "\<forall>x\<in>set (keys d). key x \<noteq> k" by simp
    from remove_api_key_no_key [OF d this] a show False by simp
  qed
  note eq = remove_api_key_found [OF d ex]
  show ?thesis
  proof (cases "remove_old_entry m (api_keys_list s)")
    case (Inl e)
    with eq a show ?thesis by simp
  next
    case (Inr es)
    with eq a have "s' = s\<lparr>db_keys := update_one_keys m (filter (\<lambda>x. key x \<noteq> k) (keys d)) (db_keys s),
             api_keys_list := es @ [api_json m (filter (\<lambda>x. key x \<noteq> k) (keys d))]\<rparr>"
      by simp
    with d ex Inr show ?thesis by simp
  qed
qed

lemma list_api_keys_single:
  assumes se: "single_entry m (api_keys_list s)"
    and r: "remove_old_entry m (api_keys_list s) = Inr es"
    and l: "api_keys_list s' = es @ [new]"
    and n: "is_doc_entry new" "entry_id new = Some (PStr m)"
  shows "list_api_keys m s' = json_loads new"
    and "\<forall>e\<in>set (api_keys_list s'). has_id (PStr m) e \<longrightarrow> e = new"
proof -
  from se have d: "list_all is_doc_entry (api_keys_list s)" by (simp add: single_entry_def)
  from r have "es = filter (\<lambda>e. \<not> has_id (PStr m) e) (api_keys_list s)"
    by (simp add: remove_old_entry_single [OF se])
  with l have l': "api_keys_list s' = replaced m new (api_keys_list s)"
    by (simp add: replaced_def)
  have "has_id (PStr m) new" using n by (simp add: has_id_entry_id)
  then have "find (has_id (PStr m)) (api_keys_list s') = Some new"
    unfolding l' by (rule replaced_find)
  moreover have "list_all is_doc_entry (api_keys_list s')"
    unfolding l' using d n(1) by (rule replaced_docs)
  ultimately show "list_api_keys m s' = json_loads new"
    by (simp add: list_api_keys_find)
  show "\<forall>e\<in>set (api_keys_list s'). has_id (PStr m) e \<longrightarrow> e = new"
    unfolding l' by (auto simp: replaced_def)
qed

lemma find_removeAll_other: "\<not> P e \<Longrightarrow> find P (removeAll e xs) = find P xs"
  by (induction xs) auto

lemma without_old_other:
  assumes "m' \<noteq> m"
  shows "find (has_id (PStr m)) (without_old m' es) = find (has_id (PStr m)) es"
proof (cases "find (has_id (PStr m')) es")
  case None
  then show ?thesis by (simp add: without_old_def)
next
  case (Some e)
  then have "has_id (PStr m') e" by (auto dest: find_SomeD)
  with assms have "\<not> has_id (PStr m) e" by (auto simp: has_id_entry_id)
  then show ?thesis using Some by (simp add: without_old_def find_removeAll_other)
qed

lemma without_old_docs:
  "list_all is_doc_entry es \<Longrightarrow> list_all is_doc_entry (without_old m es)"
  by (auto simp: without_old_def list_all_iff split: option.splits)

lemma list_api_keys_other:
  assumes d: "list_all is_doc_entry (api_keys_list s)"
    and r: "remove_old_entry m' (api_keys_list s) = Inr es"
    and l: "api_keys_list s' = es @ [new]"
    and n: "is_doc_entry new" "entry_id new = Some (PStr m')"
    and ne: "m' \<noteq> m"
  shows "list_api_keys m s' = list_api_keys m s"
proof -
  from r have es: "es = without_old m' (api_keys_list s)"
    by (rule remove_old_entry_without_old)
  have "\<not> has_id (PStr m) new" using n ne by (simp add: has_id_entry_id)
  then have "find (has_id (PStr m)) (api_keys_list s') = find (has_id (PStr m)) (api_keys_list s)"
    unfolding l es by (simp add: find_append_other without_old_other [OF ne])
  moreover have "list_all is_doc_entry (api_keys_list s')"
    unfolding l es using d n(1) by (simp add: without_old_docs)
  ultimately show ?thesis
    using d by (simp add: list_api_keys_find)
qed

lemma create_api_key_frame:
  assumes c: "list_all is_doc_entry (api_keys_list s)" and ne: "m' \<noteq> m"
  shows "list_api_keys m (snd (create_api_key rnd oid_k m' s)) = list_api_keys m s"
proof (cases "fst (create_api_key rnd oid_k m' s)")
  case (Inl e)
  have "api_keys_list (snd (create_api_key rnd oid_k m' s)) = api_keys_list s"
  proof (cases "ObjectId m'")
    case Inl
    then show ?thesis by (simp add: create_api_key_invalid)
  next
    case (Inr oid)
    show ?thesis
    proof (cases "find (\<lambda>d. user_oid d = oid) (db_users s)")
      case None
      then show ?thesis using Inr by (simp add: create_api_key_no_user)
    next
      case (Some u)
      obtain es where "remove_old_entry m' (api_keys_list s) = Inr es"
        using remove_old_entry_docs [OF c] by blast
      with create_api_key_found [OF Inr Some, where rnd = rnd and oid_k = oid_k] Inl
      show ?thesis by auto
    qed
  qed
  then show ?thesis by (simp add: list_api_keys_def)
next
  case (Inr r)
  then have a: "create_api_key rnd oid_k m' s = (Inr r, snd (create_api_key rnd oid_k m' s))"
    by (simp add: prod_eq_iff)
  from create_api_key_success [OF a]
  obtain d' es where "key_id d' = m'" "remove_old_entry m' (api_keys_list s) = Inr es"
    "api_keys_list (snd (create_api_key rnd oid_k m' s)) = es @ [key_doc_json d']"
    by blast
  then show ?thesis
    using c ne by (intro list_api_keys_other [where new = "key_doc_json d'" and es = es]) simp_all
qed

lemma remove_api_key_frame:
  assumes c: "list_all is_doc_entry (api_keys_list s)" and ne: "m' \<noteq> m"
  shows "list_api_keys m (snd (remove_api_key m' k s)) = list_api_keys m s"
proof (cases "fst (remove_api_key m' k s)")
  case (Inl e)
  have "api_keys_list (snd (remove_api_key m' k s)) = api_keys_list s"
  proof (cases "find (\<lambda>d. key_id d = m') (db_keys s)")
    case None
    then show ?thesis by (simp add: remove_api_key_no_doc)
  next
    case (Some d)
    show ?thesis
    proof (cases "\<exists>x\<in>set (keys d). key x = k")
      case False
      then have "\<forall>x\<in>set (keys d). key x \<noteq> k" by simp
      from remove_api_key_no_key [OF Some this] show ?thesis by simp
    next
      case True
      obtain es where "remove_old_entry m' (api_keys_list s) = Inr es"
        using remove_old_entry_docs [OF c] by blast
      with remove_api_key_found [OF Some True] Inl show ?thesis by simp
    qed
  qed
  then show ?thesis by (simp add: list_api_keys_def)
next
  case (Inr r)
  then have a: "remove_api_key m' k s = (Inr r, snd (remove_api_key m' k s))"
    by (simp add: prod_eq_iff)
  from remove_api_key_success [OF a] show ?thesis
  proof (elim exE conjE)
    fix d es
    assume "remove_old_entry m' (api_keys_list s) = Inr es"
      and "api_keys_list (snd (remove_api_key m' k s))
             = es @ [api_json m' (filter (\<lambda>x. key x \<noteq> k) (keys d))]"
    then show ?thesis
      using c ne
      by (intro list_api_keys_other
            [where new = "api_json m' (filter (\<lambda>x. key x \<noteq> k) (keys d))" and es = es]) simp_all
  qed
qed

lemma create_user_cache:
  "api_keys_list (snd (create_user rnd oid_u oid_k u s)) = api_keys_list s
   \<or> api_keys_list (snd (create_user rnd oid_u oid_k u s))
       = removeAll (api_json oid_u [valid_key (generate_api_key rnd 20)]) (api_keys_list s)
           @ [api_json oid_u [valid_key (generate_api_key rnd 20)]]"
proof (cases "bson_int (User_id u)")
  case False
  then show ?thesis by (simp add: create_user_overflow)
next
  case True
  then show ?thesis
    by (cases "find (\<lambda>d. User_id d = User_id u) (db_users s)")
       (simp_all add: create_user_ok create_user_conflict)
qed

lemma create_user_cache_ok:
  assumes "create_user rnd oid_u oid_k u s = (Inr r, s')"
  shows "api_keys_list s'
       = removeAll (api_json oid_u [valid_key (generate_api_key rnd 20)]) (api_keys_list s)
           @ [api_json oid_u [valid_key (generate_api_key rnd 20)]]"
proof (cases "bson_int (User_id u)")
  case False
  with assms show ?thesis by (simp add: create_user_overflow)
next
  case True
  with assms show ?thesis
    by (cases "find (\<lambda>d. User_id d = User_id u) (db_users s)")
       (auto simp: create_user_ok create_user_conflict)
qed

lemma create_user_frame:
  assumes c: "list_all is_doc_entry (api_keys_list s)" and ne: "oid_u \<noteq> m"
  shows "list_api_keys m (snd (create_user rnd oid_u oid_k u s)) = list_api_keys m s"
proof -
  let ?aj = "api_json oid_u [valid_key (generate_api_key rnd 20)]"
  let ?s' = "snd (create_user rnd oid_u oid_k u s)"
  from create_user_cache [of rnd oid_u oid_k u s]
  show ?thesis
  proof
    assume "api_keys_list ?s' = api_keys_list s"
    then show ?thesis by (simp add: list_api_keys_def)
  next
    assume l: "api_keys_list ?s' = removeAll ?aj (api_keys_list s) @ [?aj]"
    have n: "\<not> has_id (PStr m) ?aj" using ne by (simp add: has_id_entry_id)
    then have "find (has_id (PStr m)) (api_keys_list ?s') = find (has_id (PStr m)) (api_keys_list s)"
      unfolding l by (simp add: find_append_other find_removeAll_other)
    moreover have "list_all is_doc_entry (api_keys_list ?s')"
      unfolding l using c by (simp add: list_all_iff)
    ultimately show ?thesis
      using c by (simp add: list_api_keys_find)
  qed
qed

lemma create_user_listed:
  assumes c: "list_all is_doc_entry (api_keys_list s)" and z: "count_id oid_u (api_keys_list s) = 0"
    and a: "create_user rnd oid_u oid_k u s = (Inr r, s')"
  shows "last (api_keys_list s') = api_json oid_u [valid_key (generate_api_key rnd 20)]"
    and "list_api_keys oid_u s'
           = Inr (PDict [(''id'', PStr oid_u),
                         (''keys'', PList [dict_api_key (valid_key (generate_api_key rnd 20))])])"
proof -
  let ?aj = "api_json oid_u [valid_key (generate_api_key rnd 20)]"
  note l = create_user_cache_ok [OF a]
  show "last (api_keys_list s') = ?aj" by (simp add: l)
  from z have no: "\<forall>e\<in>set (api_keys_list s). \<not> has_id (PStr oid_u) e"
    by (simp add: count_id_def filter_empty_conv)
  have h: "has_id (PStr oid_u) ?aj" by (simp add: has_id_entry_id)
  with no have "?aj \<notin> set (api_keys_list s)" by auto
  then have l': "api_keys_list s' = api_keys_list s @ [?aj]"
    using l by (simp add: removeAll_absent)
  from no have "find (has_id (PStr oid_u)) (api_keys_list s) = None"
    by (simp add: find_None_ball)
  then have "find (has_id (PStr oid_u)) (api_keys_list s') = Some ?aj"
    unfolding l' using h by (rule find_append_last)
  moreover have "list_all is_doc_entry (api_keys_list s')"
    unfolding l' using c by simp
  ultimately show "list_api_keys oid_u s'
           = Inr (PDict [(''id'', PStr oid_u),
                         (''keys'', PList [dict_api_key (valid_key (generate_api_key rnd 20))])])"
    by (simp add: list_api_keys_find loads_api_json)
qed

text \<open>A list with a single entry for an id stays one under the three writing routes.\<close>

lemma create_api_key_cache:
  assumes c: "list_all is_doc_entry (api_keys_list s)"
  shows "api_keys_list (snd (create_api_key rnd oid_k m' s)) = api_keys_list s
     \<or> (\<exists>new es. is_doc_entry new \<and> entry_id new = Some (PStr m')
           \<and> remove_old_entry m' (api_keys_list s) = Inr es
           \<and> api_keys_list (snd (create_api_key rnd oid_k m' s)) = es @ [new])"
proof (cases "fst (create_api_key rnd oid_k m' s)")
  case (Inl e)
  have "api_keys_list (snd (create_api_key rnd oid_k m' s)) = api_keys_list s"
  proof (cases "ObjectId m'")
    case Inl
    then show ?thesis by (simp add: create_api_key_invalid)
  next
    case (Inr oid)
    show ?thesis
    proof (cases "find (\<lambda>d. user_oid d = oid) (db_users s)")
      case None
      then show ?thesis using Inr by (simp add: create_api_key_no_user)
    next
      case (Some u)
      obtain es where "remove_old_entry m' (api_keys_list s) = Inr es"
        using remove_old_entry_docs [OF c] by blast
      with create_api_key_found [OF Inr Some, where rnd = rnd and oid_k = oid_k] Inl
      show ?thesis by auto
    qed
  qed
  then show ?thesis by simp
next
  case (Inr r)
  then have a: "create_api_key rnd oid_k m' s = (Inr r, snd (create_api_key rnd oid_k m' s))"
    by (simp add: prod_eq_iff)
  from create_api_key_success [OF a]
  obtain d' es where "key_id d' = m'" "remove_old_entry m' (api_keys_list s) = Inr es"
    "api_keys_list (snd (create_api_key rnd oid_k m' s)) = es @ [key_doc_json d']"
    by blast
  then have "is_doc_entry (key_doc_json d') \<and> entry_id (key_doc_json d') = Some (PStr m')
           \<and> remove_old_entry m' (api_keys_list s) = Inr es
           \<and> api_keys_list (snd (create_api_key rnd oid_k m' s)) = es @ [key_doc_json d']"
    by simp
  then show ?thesis by blast
qed

lemma remove_api_key_cache:
  assumes c: "list_all is_doc_entry (api_keys_list s)"
  shows "api_keys_list (snd (remove_api_key m' k s)) = api_keys_list s
     \<or> (\<exists>new es. is_doc_entry new \<and> entry_id new = Some (PStr m')
           \<and> remove_old_entry m' (api_keys_list s) = Inr es
           \<and> api_keys_list (snd (remove_api_key m' k s)) = es @ [new])"
proof (cases "fst (remove_api_key m' k s)")
  case (Inl e)
  have "api_keys_list (snd (remove_api_key m' k s)) = api_keys_list s"
  proof (cases "find (\<lambda>d. key_id d = m') (db_keys s)")
    case None
    then show ?thesis by (simp add: remove_api_key_no_doc)
  next
    case (Some d)
    show ?thesis
    proof (cases "\<exists>x\<in>set (keys d). key x = k")
      case False
      then have "\<forall>x\<in>set (keys d). key x \<noteq> k" by simp
      from remove_api_key_no_key [OF Some this] show ?thesis by simp
    next
      case True
      obtain es where "remove_old_entry m' (api_keys_list s) = Inr es"
        using remove_old_entry_docs [OF c] by blast
      with remove_api_key_found [OF Some True] Inl show ?thesis by simp
    qed
  qed
  then show ?thesis by simp
next
  case (Inr r)
  then have a: "remove_api_key m' k s = (Inr r, snd (remove_api_key m' k s))"
    by (simp add: prod_eq_iff)
  from remove_api_key_success [OF a] show ?thesis
  proof (elim exE conjE)
    fix d es
    let ?new = "api_json m' (filter (\<lambda>x. key x \<noteq> k) (keys d))"
    assume "remove_old_entry m' (api_keys_list s) = Inr es"
      and "api_keys_list (snd (remove_api_key m' k s)) = es @ [?new]"
    then have "is_doc_entry ?new \<and> entry_id ?new = Some (PStr m')
           \<and> remove_old_entry m' (api_keys_list s) = Inr es
           \<and> api_keys_list (snd (remove_api_key m' k s)) = es @ [?new]"
      by simp
    then show ?thesis by blast
  qed
qed

lemma filter_removeAll_other: "\<not> P e \<Longrightarrow> filter P (removeAll e xs) = filter P xs"
  by (induction xs) auto

lemma without_old_filter_other:
  assumes "m' \<noteq> m"
  shows "filter (has_id (PStr m)) (without_old m' es) = filter (has_id (PStr m)) es"
proof (cases "find (has_id (PStr m')) es")
  case None
  then show ?thesis by (simp add: without_old_def)
next
  case (Some e)
  then have "has_id (PStr m') e" by (auto dest: find_SomeD)
  with assms have "\<not> has_id (PStr m) e" by (auto simp: has_id_entry_id)
  then show ?thesis using Some by (simp add: without_old_def filter_removeAll_other)
qed

lemma single_entry_step:
  assumes se: "single_entry m es"
    and st: "es' = es
       \<or> (\<exists>new es0. is_doc_entry new \<and> entry_id new = Some (PStr m')
             \<and> remove_old_entry m' es = Inr es0 \<and> es' = es0 @ [new])"
  shows "single_entry m es'"
  using st
proof
  assume "es' = es"
  with se show ?thesis by simp
next
  assume "\<exists>new es0. is_doc_entry new \<and> entry_id new = Some (PStr m')
             \<and> remove_old_entry m' es = Inr es0 \<and> es' = es0 @ [new]"
  then obtain new es0 where n: "is_doc_entry new" "entry_id new = Some (PStr m')"
    and r: "remove_old_entry m' es = Inr es0" and l: "es' = es0 @ [new]"
    by blast
  from se have d: "list_all is_doc_entry es"
    and le: "length (remdups (filter (has_id (PStr m)) es)) \<le> 1"
    by (simp_all add: single_entry_def)
  from r have es0: "es0 = without_old m' es" by (rule remove_old_entry_without_old)
  have docs: "list_all is_doc_entry es'"
    unfolding l es0 using d n(1) by (simp add: without_old_docs)
  show ?thesis
  proof (cases "m' = m")
    case True
    with r have "es0 = filter (\<lambda>e. \<not> has_id (PStr m) e) es"
      by (simp add: remove_old_entry_single [OF se])
    moreover have "has_id (PStr m) new" using n True by (simp add: has_id_entry_id)
    ultimately have "filter (has_id (PStr m)) es' = [new]"
      unfolding l by simp
    with docs show ?thesis by (simp add: single_entry_def)
  next
    case False
    then have "\<not> has_id (PStr m) new" using n by (simp add: has_id_entry_id)
    then have "filter (has_id (PStr m)) es' = filter (has_id (PStr m)) es"
      unfolding l es0 by (simp add: without_old_filter_other [OF False])
    with docs le show ?thesis by (simp add: single_entry_def)
  qed
qed

lemma single_entry_create_api_key:
  assumes "single_entry m (api_keys_list s)"
  shows "single_entry m (api_keys_list (snd (create_api_key rnd oid_k m' s)))"
proof -
  from assms have "list_all is_doc_entry (api_keys_list s)" by (simp add: single_entry_def)
  from single_entry_step [OF assms create_api_key_cache [OF this]] show ?thesis .
qed

lemma single_entry_remove_api_key:
  assumes "single_entry m (api_keys_list s)"
  shows "single_entry m (api_keys_list (snd (remove_api_key m' k s)))"
proof -
  from assms have "list_all is_doc_entry (api_keys_list s)" by (simp add: single_entry_def)
  from single_entry_step [OF assms remove_api_key_cache [OF this]] show ?thesis .
qed

lemma single_entry_create_user:
  assumes se: "single_entry m (api_keys_list s)"
    and z: "oid_u \<noteq> m \<or> count_id m (api_keys_list s) = 0"
  shows "single_entry m (api_keys_list (snd (create_user rnd oid_u oid_k u s)))"
proof -
  let ?aj = "api_json oid_u [valid_key (generate_api_key rnd 20)]"
  let ?s' = "snd (create_user rnd oid_u oid_k u s)"
  from se have d: "list_all is_doc_entry (api_keys_list s)"
    and le: "length (remdups (filter (has_id (PStr m)) (api_keys_list s))) \<le> 1"
    by (simp_all add: single_entry_def)
  from create_user_cache [of rnd oid_u oid_k u s]
  show ?thesis
  proof
    assume "api_keys_list ?s' = api_keys_list s"
    with se show ?thesis by simp
  next
    assume l: "api_keys_list ?s' = removeAll ?aj (api_keys_list s) @ [?aj]"
    have docs: "list_all is_doc_entry (api_keys_list ?s')"
      unfolding l using d by (simp add: list_all_iff)
    show ?thesis
    proof (cases "oid_u = m")
      case False
      then have n: "\<not> has_id (PStr m) ?aj" by (simp add: has_id_entry_id)
      then have "filter (has_id (PStr m)) (api_keys_list ?s') = filter (has_id (PStr m)) (api_keys_list s)"
        unfolding l by (simp add: filter_removeAll_other)
      with docs le show ?thesis by (simp add: single_entry_def)
    next
      case True
      with z have "count_id m (api_keys_list s) = 0" by simp
      then have no: "filter (has_id (PStr m)) (api_keys_list s) = []"
        by (simp add: count_id_def)
      then have "\<forall>e\<in>set (api_keys_list s). \<not> has_id (PStr m) e"
        by (simp add: filter_empty_conv)
      moreover have h: "has_id (PStr m) ?aj" using True by (simp add: has_id_entry_id)
      ultimately have "?aj \<notin> set (api_keys_list s)" by auto
      then have "api_keys_list ?s' = api_keys_list s @ [?aj]"
        using l by (simp add: removeAll_absent)
      with no h have "filter (has_id (PStr m)) (api_keys_list ?s') = [?aj]" by simp
      with docs show ?thesis by (simp add: single_entry_def)
    qed
  qed
qed

section \<open>The created user in the cache\<close>

text \<open>
  After the creation of Ann on the empty store, \<^verbatim>\<open>get_user\<close> returns five fields: the
  four of the profile and \<^verbatim>\<open>_id\<close>, which \<^verbatim>\<open>create_user\<close> sets to the storage id before it
  serializes the dictionary. The result is not equal to the document of the four fields.
\<close>

theorem get_user_after_create_counterexample:
  "get_user 1 (snd (create_user (\<lambda>i. 7 * i) ''650000000000000000000001'' ''650000000000000000000002''
        \<lparr>User_id = 1, User_name = ''Ann'', User_company = ''Acme'', User_status = active\<rparr> init_state))
     = Inr (PDict [(''_id'', PStr ''650000000000000000000001''), (''company'', PStr ''Acme''),
                   (''id'', PInt 1), (''name'', PStr ''Ann''), (''status'', PStr ''active'')])
   \<and> \<not> py_eq (PDict [(''_id'', PStr ''650000000000000000000001''), (''company'', PStr ''Acme''),
                   (''id'', PInt 1), (''name'', PStr ''Ann''), (''status'', PStr ''active'')])
              (PDict [(''id'', PInt 1), (''name'', PStr ''Ann''), (''company'', PStr ''Acme''),
                      (''status'', PStr ''active'')])"
  by code_simp

text \<open>
  C8, as it holds for the code. When the user with id 1, name Ann and company Acme is created in a state
  that has no user of id 1, the response carries a plaintext key of 20 characters, and
  \<^verbatim>\<open>get_user\<close> for id 1 then returns the document with the fields id 1, name Ann,
  company Acme, status active and, in addition, \<^verbatim>\<open>_id\<close> with the storage id.
\<close>

theorem get_user_after_create:
  assumes "consistent s" and "\<forall>d\<in>set (db_users s). User_id d \<noteq> 1"
  shows "fst (create_user rnd oid_u oid_k
                \<lparr>User_id = 1, User_name = ''Ann'', User_company = ''Acme'', User_status = active\<rparr> s)
           = Inr (PDict [(''message'', PStr ''User created''),
                         (''user'', PDict [(''id'', PInt 1), (''name'', PStr ''Ann''),
                                           (''company'', PStr ''Acme''), (''status'', PStr ''active''),
                                           (''_id'', PStr oid_u)]),
                         (''api_key'', PStr (generate_api_key rnd 20))])
         \<and> length (generate_api_key rnd 20) = 20
         \<and> get_user 1 (snd (create_user rnd oid_u oid_k
                \<lparr>User_id = 1, User_name = ''Ann'', User_company = ''Acme'', User_status = active\<rparr> s))
           = Inr (PDict [(''_id'', PStr oid_u), (''company'', PStr ''Acme''), (''id'', PInt 1),
                         (''name'', PStr ''Ann''), (''status'', PStr ''active'')])
         \<and> py_eq (PDict [(''_id'', PStr oid_u), (''company'', PStr ''Acme''), (''id'', PInt 1),
                         (''name'', PStr ''Ann''), (''status'', PStr ''active'')])
                  (PDict [(''id'', PInt 1), (''name'', PStr ''Ann''), (''company'', PStr ''Acme''),
                          (''status'', PStr ''active''), (''_id'', PStr oid_u)])"
proof -
  let ?u = "\<lparr>User_id = 1, User_name = ''Ann'', User_company = ''Acme'', User_status = active\<rparr>"
  have n: "\<forall>d\<in>set (db_users s). User_id d \<noteq> User_id ?u"
    using assms(2) by simp
  then have f: "find (\<lambda>d. User_id d = User_id ?u) (db_users s) = None"
    by (simp add: find_None_ball)
  have b: "bson_int (User_id ?u)"
    by (simp add: bson_int_def)
  have "fst (create_user rnd oid_u oid_k ?u s)
           = Inr (PDict [(''message'', PStr ''User created''),
                         (''user'', PDict [(''id'', PInt 1), (''name'', PStr ''Ann''),
                                           (''company'', PStr ''Acme''), (''status'', PStr ''active''),
                                           (''_id'', PStr oid_u)]),
                         (''api_key'', PStr (generate_api_key rnd 20))])"
    using f b by (simp add: create_user_ok dict_User_def)
  moreover have "length (generate_api_key rnd 20) = 20"
    by (rule generate_api_key_length)
  moreover have "get_user 1 (snd (create_user rnd oid_u oid_k ?u s))
           = Inr (PDict [(''_id'', PStr oid_u), (''company'', PStr ''Acme''), (''id'', PInt 1),
                         (''name'', PStr ''Ann''), (''status'', PStr ''active'')])"
    using get_user_created [OF assms(1) n b, of rnd oid_u oid_k] by (simp add: loads_user_json)
  moreover have "py_eq (PDict [(''_id'', PStr oid_u), (''company'', PStr ''Acme''), (''id'', PInt 1),
                         (''name'', PStr ''Ann''), (''status'', PStr ''active'')])
                  (PDict [(''id'', PInt 1), (''name'', PStr ''Ann''), (''company'', PStr ''Acme''),
                          (''status'', PStr ''active''), (''_id'', PStr oid_u)])"
    by simp
  ultimately show ?thesis by blast
qed

theorem get_user_after_create_witness:
  "consistent init_state
   \<and> db_users init_state = []
   \<and> get_user 1 (snd (create_user (\<lambda>i. 7 * i) ''650000000000000000000001'' ''650000000000000000000002''
        \<lparr>User_id = 1, User_name = ''Ann'', User_company = ''Acme'', User_status = active\<rparr> init_state))
     = Inr (PDict [(''_id'', PStr ''650000000000000000000001''), (''company'', PStr ''Acme''),
                   (''id'', PInt 1), (''name'', PStr ''Ann''), (''status'', PStr ''active'')])
   \<and> length (generate_api_key (\<lambda>i. 7 * i) 20) = 20"
proof -
  have c: "consistent init_state" by (rule consistent_init)
  have e: "db_users init_state = []" by (simp add: init_state_def)
  then have n: "\<forall>d\<in>set (db_users init_state). User_id d \<noteq> 1" by simp
  from get_user_after_create [OF c n, of "\<lambda>i. 7 * i" "''650000000000000000000001''" "''650000000000000000000002''"]
    c e show ?thesis by blast
qed

section \<open>Removing a key\<close>

text \<open>
  A cache list with two different entries for one id, as two calls of \<^verbatim>\<open>create_api_key\<close>
  that overlap leave it: both entries hold the key \<^verbatim>\<open>k1\<close>. The removal of \<^verbatim>\<open>k1\<close>
  succeeds and takes the key out of the key set of the store; the loop removes the first of
  the two entries only, and \<^verbatim>\<open>list_api_keys\<close> then returns the other one, which still
  holds \<^verbatim>\<open>k1\<close>.
\<close>

theorem remove_api_key_spec_counterexample:
  "fst (remove_api_key ''650000000000000000000001'' ''k1''
      \<lparr>db_users = [\<lparr>User_id = 1, User_name = ''Ann'', User_company = ''Acme'', User_status = active,
                    user_oid = ''650000000000000000000001''\<rparr>],
       db_keys = [\<lparr>key_oid = ''650000000000000000000002'', key_id = ''650000000000000000000001'',
                   keys = [\<lparr>key = ''k1'', status = ''valid''\<rparr>, \<lparr>key = ''k3'', status = ''valid''\<rparr>]\<rparr>],
       users_list = [],
       api_keys_list =
         [''{\"_id\": \"650000000000000000000002\", \"id\": \"650000000000000000000001\", \"keys\": [{\"key\": \"k1\", \"status\": \"valid\"}, {\"key\": \"k2\", \"status\": \"valid\"}]}'',
          ''{\"_id\": \"650000000000000000000002\", \"id\": \"650000000000000000000001\", \"keys\": [{\"key\": \"k1\", \"status\": \"valid\"}, {\"key\": \"k3\", \"status\": \"valid\"}]}'']\<rparr>)
     = Inr (PDict [(''message'', PStr ''API key removed''), (''removed_key'', PStr ''k1'')])
   \<and> map keys (db_keys (snd (remove_api_key ''650000000000000000000001'' ''k1''
      \<lparr>db_users = [\<lparr>User_id = 1, User_name = ''Ann'', User_company = ''Acme'', User_status = active,
                    user_oid = ''650000000000000000000001''\<rparr>],
       db_keys = [\<lparr>key_oid = ''650000000000000000000002'', key_id = ''650000000000000000000001'',
                   keys = [\<lparr>key = ''k1'', status = ''valid''\<rparr>, \<lparr>key = ''k3'', status = ''valid''\<rparr>]\<rparr>],
       users_list = [],
       api_keys_list =
         [''{\"_id\": \"650000000000000000000002\", \"id\": \"650000000000000000000001\", \"keys\": [{\"key\": \"k1\", \"status\": \"valid\"}, {\"key\": \"k2\", \"status\": \"valid\"}]}'',
          ''{\"_id\": \"650000000000000000000002\", \"id\": \"650000000000000000000001\", \"keys\": [{\"key\": \"k1\", \"status\": \"valid\"}, {\"key\": \"k3\", \"status\": \"valid\"}]}'']\<rparr>)))
     = [[\<lparr>key = ''k3'', status = ''valid''\<rparr>]]
   \<and> api_keys_list (snd (remove_api_key ''650000000000000000000001'' ''k1''
      \<lparr>db_users = [\<lparr>User_id = 1, User_name = ''Ann'', User_company = ''Acme'', User_status = active,
                    user_oid = ''650000000000000000000001''\<rparr>],
       db_keys = [\<lparr>key_oid = ''650000000000000000000002'', key_id = ''650000000000000000000001'',
                   keys = [\<lparr>key = ''k1'', status = ''valid''\<rparr>, \<lparr>key = ''k3'', status = ''valid''\<rparr>]\<rparr>],
       users_list = [],
       api_keys_list =
         [''{\"_id\": \"650000000000000000000002\", \"id\": \"650000000000000000000001\", \"keys\": [{\"key\": \"k1\", \"status\": \"valid\"}, {\"key\": \"k2\", \"status\": \"valid\"}]}'',
          ''{\"_id\": \"650000000000000000000002\", \"id\": \"650000000000000000000001\", \"keys\": [{\"key\": \"k1\", \"status\": \"valid\"}, {\"key\": \"k3\", \"status\": \"valid\"}]}'']\<rparr>))
     = [''{\"_id\": \"650000000000000000000002\", \"id\": \"650000000000000000000001\", \"keys\": [{\"key\": \"k1\", \"status\": \"valid\"}, {\"key\": \"k3\", \"status\": \"valid\"}]}'',
        ''{\"id\": \"650000000000000000000001\", \"keys\": [{\"key\": \"k3\", \"status\": \"valid\"}]}'']
   \<and> list_api_keys ''650000000000000000000001'' (snd (remove_api_key ''650000000000000000000001'' ''k1''
      \<lparr>db_users = [\<lparr>User_id = 1, User_name = ''Ann'', User_company = ''Acme'', User_status = active,
                    user_oid = ''650000000000000000000001''\<rparr>],
       db_keys = [\<lparr>key_oid = ''650000000000000000000002'', key_id = ''650000000000000000000001'',
                   keys = [\<lparr>key = ''k1'', status = ''valid''\<rparr>, \<lparr>key = ''k3'', status = ''valid''\<rparr>]\<rparr>],
       users_list = [],
       api_keys_list =
         [''{\"_id\": \"650000000000000000000002\", \"id\": \"650000000000000000000001\", \"keys\": [{\"key\": \"k1\", \"status\": \"valid\"}, {\"key\": \"k2\", \"status\": \"valid\"}]}'',
          ''{\"_id\": \"650000000000000000000002\", \"id\": \"650000000000000000000001\", \"keys\": [{\"key\": \"k1\", \"status\": \"valid\"}, {\"key\": \"k3\", \"status\": \"valid\"}]}'']\<rparr>))
     = Inr (PDict [(''_id'', PStr ''650000000000000000000002''), (''id'', PStr ''650000000000000000000001''),
                   (''keys'', PList [PDict [(''key'', PStr ''k1''), (''status'', PStr ''valid'')],
                                     PDict [(''key'', PStr ''k3''), (''status'', PStr ''valid'')]])])"
  by code_simp

text \<open>
  C1, as it holds for the code. \<^verbatim>\<open>remove_api_key\<close> fails with status 404 exactly when
  the store has no key set for the storage id or the key set found has no entry with that
  key, and it then leaves store and cache as they are. Otherwise the key set found is
  stored with its keys filtered by value: no entry with the key is left, and where the key
  occurred once the other entries stay in their order. When the api-keys list has a single
  entry for the storage id, the route then returns the removed key, and the only entry
  that the cache has for the storage id afterwards is the serialization of the reduced key
  set, which \<^verbatim>\<open>list_api_keys\<close> returns: the key is absent from the store's key set and
  from the cache.
\<close>

theorem remove_api_key_spec:
  "((\<exists>msg. fst (remove_api_key m k s) = Inl (HTTPException 404 msg))
      = (case find (\<lambda>d. key_id d = m) (db_keys s) of
           None \<Rightarrow> True
         | Some d \<Rightarrow> \<forall>x\<in>set (keys d). key x \<noteq> k))
   \<and> ((\<exists>msg. fst (remove_api_key m k s) = Inl (HTTPException 404 msg))
        \<longrightarrow> snd (remove_api_key m k s) = s)
   \<and> (\<forall>d. find (\<lambda>d. key_id d = m) (db_keys s) = Some d \<and> (\<exists>x\<in>set (keys d). key x = k) \<longrightarrow>
         db_keys (snd (remove_api_key m k s))
           = update_one_keys m (filter (\<lambda>x. key x \<noteq> k) (keys d)) (db_keys s)
         \<and> find (\<lambda>d. key_id d = m) (db_keys (snd (remove_api_key m k s)))
           = Some (d\<lparr>keys := filter (\<lambda>x. key x \<noteq> k) (keys d)\<rparr>)
         \<and> (\<forall>x\<in>set (filter (\<lambda>x. key x \<noteq> k) (keys d)). key x \<noteq> k)
         \<and> (\<forall>xs x ys. keys d = xs @ x # ys \<and> key x = k \<and> (\<forall>y\<in>set (xs @ ys). key y \<noteq> k)
               \<longrightarrow> filter (\<lambda>x. key x \<noteq> k) (keys d) = xs @ ys)
         \<and> (single_entry m (api_keys_list s) \<longrightarrow>
               fst (remove_api_key m k s)
                 = Inr (PDict [(''message'', PStr ''API key removed''), (''removed_key'', PStr k)])
               \<and> list_api_keys m (snd (remove_api_key m k s))
                 = Inr (PDict [(''id'', PStr m),
                               (''keys'', PList (map dict_api_key (filter (\<lambda>x. key x \<noteq> k) (keys d))))])
               \<and> (\<forall>e\<in>set (api_keys_list (snd (remove_api_key m k s))).
                     has_id (PStr m) e \<longrightarrow> e = api_json m (filter (\<lambda>x. key x \<noteq> k) (keys d)))))"
proof (intro conjI impI allI)
  show "(\<exists>msg. fst (remove_api_key m k s) = Inl (HTTPException 404 msg))
      = (case find (\<lambda>d. key_id d = m) (db_keys s) of
           None \<Rightarrow> True
         | Some d \<Rightarrow> \<forall>x\<in>set (keys d). key x \<noteq> k)"
    by (rule remove_api_key_404)
next
  assume "\<exists>msg. fst (remove_api_key m k s) = Inl (HTTPException 404 msg)"
  then have "case find (\<lambda>d. key_id d = m) (db_keys s) of
           None \<Rightarrow> True
         | Some d \<Rightarrow> \<forall>x\<in>set (keys d). key x \<noteq> k"
    by (simp add: remove_api_key_404)
  then show "snd (remove_api_key m k s) = s"
    by (auto simp: remove_api_key_no_doc remove_api_key_no_key split: option.splits)
next
  fix d assume h: "find (\<lambda>d. key_id d = m) (db_keys s) = Some d \<and> (\<exists>x\<in>set (keys d). key x = k)"
  then have d: "find (\<lambda>d. key_id d = m) (db_keys s) = Some d" and ex: "\<exists>x\<in>set (keys d). key x = k"
    by simp_all
  show "db_keys (snd (remove_api_key m k s))
           = update_one_keys m (filter (\<lambda>x. key x \<noteq> k) (keys d)) (db_keys s)"
    using remove_api_key_found [OF d ex] by (auto split: sum.splits)
  then show "find (\<lambda>d. key_id d = m) (db_keys (snd (remove_api_key m k s)))
           = Some (d\<lparr>keys := filter (\<lambda>x. key x \<noteq> k) (keys d)\<rparr>)"
    using find_update_one_keys [OF d] by simp
next
  fix d :: key_doc
  show "\<forall>x\<in>set (filter (\<lambda>x. key x \<noteq> k) (keys d)). key x \<noteq> k" by simp
next
  fix d xs x ys
  assume "keys d = xs @ x # ys \<and> key x = k \<and> (\<forall>y\<in>set (xs @ ys). key y \<noteq> k)"
  then show "filter (\<lambda>x. key x \<noteq> k) (keys d) = xs @ ys"
    using filter_single_out [of x k xs ys] by simp
next
  fix d
  assume h: "find (\<lambda>d. key_id d = m) (db_keys s) = Some d \<and> (\<exists>x\<in>set (keys d). key x = k)"
    and se: "single_entry m (api_keys_list s)"
  then have d: "find (\<lambda>d. key_id d = m) (db_keys s) = Some d" and ex: "\<exists>x\<in>set (keys d). key x = k"
    by simp_all
  let ?f = "filter (\<lambda>x. key x \<noteq> k) (keys d)"
  let ?es = "filter (\<lambda>e. \<not> has_id (PStr m) e) (api_keys_list s)"
  note ro = remove_old_entry_single [OF se]
  have r: "remove_api_key m k s =
     (Inr (PDict [(''message'', PStr ''API key removed''), (''removed_key'', PStr k)]),
      s\<lparr>db_keys := update_one_keys m ?f (db_keys s), api_keys_list := ?es @ [api_json m ?f]\<rparr>)"
    using remove_api_key_found [OF d ex] by (simp add: ro)
  then show "fst (remove_api_key m k s)
                 = Inr (PDict [(''message'', PStr ''API key removed''), (''removed_key'', PStr k)])"
    by simp
  from r have l: "api_keys_list (snd (remove_api_key m k s)) = ?es @ [api_json m ?f]"
    by simp
  show "list_api_keys m (snd (remove_api_key m k s))
                 = Inr (PDict [(''id'', PStr m), (''keys'', PList (map dict_api_key ?f))])"
    using list_api_keys_single(1) [OF se ro l] by (simp add: loads_api_json)
  show "\<forall>e\<in>set (api_keys_list (snd (remove_api_key m k s))). has_id (PStr m) e \<longrightarrow> e = api_json m ?f"
    using list_api_keys_single(2) [OF se ro l] by simp
qed

theorem remove_api_key_spec_witness:
  "single_entry ''650000000000000000000001'' (api_keys_list
      \<lparr>db_users = [\<lparr>User_id = 1, User_name = ''Ann'', User_company = ''Acme'', User_status = active,
                    user_oid = ''650000000000000000000001''\<rparr>],
       db_keys = [\<lparr>key_oid = ''650000000000000000000002'', key_id = ''650000000000000000000001'',
                   keys = [\<lparr>key = ''k1'', status = ''valid''\<rparr>]\<rparr>],
       users_list = [],
       api_keys_list =
         [''{\"id\": \"650000000000000000000001\", \"keys\": [{\"key\": \"k1\", \"status\": \"valid\"}]}'']\<rparr>)
   \<and> find (\<lambda>d. key_id d = ''650000000000000000000001'') (db_keys
      \<lparr>db_users = [\<lparr>User_id = 1, User_name = ''Ann'', User_company = ''Acme'', User_status = active,
                    user_oid = ''650000000000000000000001''\<rparr>],
       db_keys = [\<lparr>key_oid = ''650000000000000000000002'', key_id = ''650000000000000000000001'',
                   keys = [\<lparr>key = ''k1'', status = ''valid''\<rparr>]\<rparr>],
       users_list = [],
       api_keys_list =
         [''{\"id\": \"650000000000000000000001\", \"keys\": [{\"key\": \"k1\", \"status\": \"valid\"}]}'']\<rparr>)
     = Some \<lparr>key_oid = ''650000000000000000000002'', key_id = ''650000000000000000000001'',
             keys = [\<lparr>key = ''k1'', status = ''valid''\<rparr>]\<rparr>
   \<and> fst (remove_api_key ''650000000000000000000001'' ''k1''
      \<lparr>db_users = [\<lparr>User_id = 1, User_name = ''Ann'', User_company = ''Acme'', User_status = active,
                    user_oid = ''650000000000000000000001''\<rparr>],
       db_keys = [\<lparr>key_oid = ''650000000000000000000002'', key_id = ''650000000000000000000001'',
                   keys = [\<lparr>key = ''k1'', status = ''valid''\<rparr>]\<rparr>],
       users_list = [],
       api_keys_list =
         [''{\"id\": \"650000000000000000000001\", \"keys\": [{\"key\": \"k1\", \"status\": \"valid\"}]}'']\<rparr>)
     = Inr (PDict [(''message'', PStr ''API key removed''), (''removed_key'', PStr ''k1'')])
   \<and> list_api_keys ''650000000000000000000001'' (snd (remove_api_key ''650000000000000000000001'' ''k1''
      \<lparr>db_users = [\<lparr>User_id = 1, User_name = ''Ann'', User_company = ''Acme'', User_status = active,
                    user_oid = ''650000000000000000000001''\<rparr>],
       db_keys = [\<lparr>key_oid = ''650000000000000000000002'', key_id = ''650000000000000000000001'',
                   keys = [\<lparr>key = ''k1'', status = ''valid''\<rparr>]\<rparr>],
       users_list = [],
       api_keys_list =
         [''{\"id\": \"650000000000000000000001\", \"keys\": [{\"key\": \"k1\", \"status\": \"valid\"}]}'']\<rparr>))
     = Inr (PDict [(''id'', PStr ''650000000000000000000001''), (''keys'', PList [])])
   \<and> fst (remove_api_key ''650000000000000000000001'' ''k2''
      \<lparr>db_users = [\<lparr>User_id = 1, User_name = ''Ann'', User_company = ''Acme'', User_status = active,
                    user_oid = ''650000000000000000000001''\<rparr>],
       db_keys = [\<lparr>key_oid = ''650000000000000000000002'', key_id = ''650000000000000000000001'',
                   keys = [\<lparr>key = ''k1'', status = ''valid''\<rparr>]\<rparr>],
       users_list = [],
       api_keys_list =
         [''{\"id\": \"650000000000000000000001\", \"keys\": [{\"key\": \"k1\", \"status\": \"valid\"}]}'']\<rparr>)
     = Inl (HTTPException 404 ''API key not found'')
   \<and> snd (remove_api_key ''650000000000000000000001'' ''k2''
      \<lparr>db_users = [\<lparr>User_id = 1, User_name = ''Ann'', User_company = ''Acme'', User_status = active,
                    user_oid = ''650000000000000000000001''\<rparr>],
       db_keys = [\<lparr>key_oid = ''650000000000000000000002'', key_id = ''650000000000000000000001'',
                   keys = [\<lparr>key = ''k1'', status = ''valid''\<rparr>]\<rparr>],
       users_list = [],
       api_keys_list =
         [''{\"id\": \"650000000000000000000001\", \"keys\": [{\"key\": \"k1\", \"status\": \"valid\"}]}'']\<rparr>)
     = \<lparr>db_users = [\<lparr>User_id = 1, User_name = ''Ann'', User_company = ''Acme'', User_status = active,
                    user_oid = ''650000000000000000000001''\<rparr>],
       db_keys = [\<lparr>key_oid = ''650000000000000000000002'', key_id = ''650000000000000000000001'',
                   keys = [\<lparr>key = ''k1'', status = ''valid''\<rparr>]\<rparr>],
       users_list = [],
       api_keys_list =
         [''{\"id\": \"650000000000000000000001\", \"keys\": [{\"key\": \"k1\", \"status\": \"valid\"}]}'']\<rparr>"
proof -
  let ?S = "\<lparr>db_users = [\<lparr>User_id = 1, User_name = ''Ann'', User_company = ''Acme'', User_status = active,
                    user_oid = ''650000000000000000000001''\<rparr>],
       db_keys = [\<lparr>key_oid = ''650000000000000000000002'', key_id = ''650000000000000000000001'',
                   keys = [\<lparr>key = ''k1'', status = ''valid''\<rparr>]\<rparr>],
       users_list = [],
       api_keys_list =
         [''{\"id\": \"650000000000000000000001\", \"keys\": [{\"key\": \"k1\", \"status\": \"valid\"}]}'']\<rparr>"
  let ?m = "''650000000000000000000001''"
  let ?d = "\<lparr>key_oid = ''650000000000000000000002'', key_id = ''650000000000000000000001'',
             keys = [\<lparr>key = ''k1'', status = ''valid''\<rparr>]\<rparr>"
  have c: "single_entry ?m (api_keys_list ?S)" by code_simp
  have f: "find (\<lambda>d. key_id d = ?m) (db_keys ?S) = Some ?d" by simp
  have e: "\<exists>x\<in>set (keys ?d). key x = ''k1''" by simp
  have g: "filter (\<lambda>x. key x \<noteq> ''k1'') (keys ?d) = []" by simp
  have n: "fst (remove_api_key ?m ''k2'' ?S) = Inl (HTTPException 404 ''API key not found'')"
    by code_simp
  from remove_api_key_spec [of ?m "''k1''" ?S] f e c
  have "fst (remove_api_key ?m ''k1'' ?S)
          = Inr (PDict [(''message'', PStr ''API key removed''), (''removed_key'', PStr ''k1'')])"
    and "list_api_keys ?m (snd (remove_api_key ?m ''k1'' ?S))
          = Inr (PDict [(''id'', PStr ?m),
                        (''keys'', PList (map dict_api_key (filter (\<lambda>x. key x \<noteq> ''k1'') (keys ?d))))])"
    by blast+
  moreover from remove_api_key_spec [of ?m "''k2''" ?S] n
  have "snd (remove_api_key ?m ''k2'' ?S) = ?S"
    by blast
  ultimately show ?thesis
    using c f n by (simp only: g list.map simp_thms)
qed

section \<open>The \<^verbatim>\<open>_id\<close> field of cached key sets\<close>

text \<open>
  On the cache list with two different entries for one id, both written by
  \<^verbatim>\<open>create_api_key\<close>, the removal of \<^verbatim>\<open>k3\<close> succeeds and appends an entry without
  \<^verbatim>\<open>_id\<close>; the loop removes the first of the two older entries only, and
  \<^verbatim>\<open>list_api_keys\<close> then returns the other one: the answer has an \<^verbatim>\<open>_id\<close> although the
  last change of the key set was a removal.
\<close>

theorem list_api_keys_underscore_id_counterexample:
  "fst (remove_api_key ''650000000000000000000001'' ''k3''
      \<lparr>db_users = [\<lparr>User_id = 1, User_name = ''Ann'', User_company = ''Acme'', User_status = active,
                    user_oid = ''650000000000000000000001''\<rparr>],
       db_keys = [\<lparr>key_oid = ''650000000000000000000002'', key_id = ''650000000000000000000001'',
                   keys = [\<lparr>key = ''k1'', status = ''valid''\<rparr>, \<lparr>key = ''k3'', status = ''valid''\<rparr>]\<rparr>],
       users_list = [],
       api_keys_list =
         [''{\"_id\": \"650000000000000000000002\", \"id\": \"650000000000000000000001\", \"keys\": [{\"key\": \"k1\", \"status\": \"valid\"}, {\"key\": \"k2\", \"status\": \"valid\"}]}'',
          ''{\"_id\": \"650000000000000000000002\", \"id\": \"650000000000000000000001\", \"keys\": [{\"key\": \"k1\", \"status\": \"valid\"}, {\"key\": \"k3\", \"status\": \"valid\"}]}'']\<rparr>)
     = Inr (PDict [(''message'', PStr ''API key removed''), (''removed_key'', PStr ''k3'')])
   \<and> last (api_keys_list (snd (remove_api_key ''650000000000000000000001'' ''k3''
      \<lparr>db_users = [\<lparr>User_id = 1, User_name = ''Ann'', User_company = ''Acme'', User_status = active,
                    user_oid = ''650000000000000000000001''\<rparr>],
       db_keys = [\<lparr>key_oid = ''650000000000000000000002'', key_id = ''650000000000000000000001'',
                   keys = [\<lparr>key = ''k1'', status = ''valid''\<rparr>, \<lparr>key = ''k3'', status = ''valid''\<rparr>]\<rparr>],
       users_list = [],
       api_keys_list =
         [''{\"_id\": \"650000000000000000000002\", \"id\": \"650000000000000000000001\", \"keys\": [{\"key\": \"k1\", \"status\": \"valid\"}, {\"key\": \"k2\", \"status\": \"valid\"}]}'',
          ''{\"_id\": \"650000000000000000000002\", \"id\": \"650000000000000000000001\", \"keys\": [{\"key\": \"k1\", \"status\": \"valid\"}, {\"key\": \"k3\", \"status\": \"valid\"}]}'']\<rparr>)))
     = ''{\"id\": \"650000000000000000000001\", \"keys\": [{\"key\": \"k1\", \"status\": \"valid\"}]}''
   \<and> list_api_keys ''650000000000000000000001'' (snd (remove_api_key ''650000000000000000000001'' ''k3''
      \<lparr>db_users = [\<lparr>User_id = 1, User_name = ''Ann'', User_company = ''Acme'', User_status = active,
                    user_oid = ''650000000000000000000001''\<rparr>],
       db_keys = [\<lparr>key_oid = ''650000000000000000000002'', key_id = ''650000000000000000000001'',
                   keys = [\<lparr>key = ''k1'', status = ''valid''\<rparr>, \<lparr>key = ''k3'', status = ''valid''\<rparr>]\<rparr>],
       users_list = [],
       api_keys_list =
         [''{\"_id\": \"650000000000000000000002\", \"id\": \"650000000000000000000001\", \"keys\": [{\"key\": \"k1\", \"status\": \"valid\"}, {\"key\": \"k2\", \"status\": \"valid\"}]}'',
          ''{\"_id\": \"650000000000000000000002\", \"id\": \"650000000000000000000001\", \"keys\": [{\"key\": \"k1\", \"status\": \"valid\"}, {\"key\": \"k3\", \"status\": \"valid\"}]}'']\<rparr>))
     = Inr (PDict [(''_id'', PStr ''650000000000000000000002''), (''id'', PStr ''650000000000000000000001''),
                   (''keys'', PList [PDict [(''key'', PStr ''k1''), (''status'', PStr ''valid'')],
                                     PDict [(''key'', PStr ''k3''), (''status'', PStr ''valid'')]])])
   \<and> has_field (PDict [(''_id'', PStr ''650000000000000000000002''), (''id'', PStr ''650000000000000000000001''),
                   (''keys'', PList [PDict [(''key'', PStr ''k1''), (''status'', PStr ''valid'')],
                                     PDict [(''key'', PStr ''k3''), (''status'', PStr ''valid'')]])]) ''_id''"
  by code_simp

text \<open>
  C9, as it holds for the code. The entry that \<^verbatim>\<open>create_api_key\<close> appends to the
  api-keys list is the serialization of the key-set document of the store with its own
  \<^verbatim>\<open>_id\<close> as a string, next to \<^verbatim>\<open>id\<close> and \<^verbatim>\<open>keys\<close>; the entries that
  \<^verbatim>\<open>create_user\<close> and \<^verbatim>\<open>remove_api_key\<close> append hold \<^verbatim>\<open>id\<close> and \<^verbatim>\<open>keys\<close> only.
  When the api-keys list has a single entry for the id of the key set (and, for a new
  user, no entry yet for the storage id it is given), \<^verbatim>\<open>list_api_keys\<close> returns the
  entry appended by the last change of the key set, since on a list of documents a change
  of another key set or the creation of another user leaves its answer as it is: the
  answer has an \<^verbatim>\<open>_id\<close> after \<^verbatim>\<open>create_api_key\<close> and none after \<^verbatim>\<open>create_user\<close> or
  \<^verbatim>\<open>remove_api_key\<close>. The three routes keep a list with a single entry for the id as
  one, so in a run of requests one after the other the condition holds before every
  change once it holds.
\<close>

theorem list_api_keys_underscore_id:
  "(create_api_key rnd oid_k m s = (Inr r, s') \<longrightarrow>
      (\<exists>d'. find (\<lambda>d. key_id d = m) (db_keys s') = Some d'
         \<and> last (api_keys_list s') = key_doc_json d'
         \<and> json_loads (key_doc_json d')
             = Inr (PDict [(''_id'', PStr (key_oid d')), (''id'', PStr m),
                           (''keys'', PList (map dict_api_key (keys d')))])
         \<and> (single_entry m (api_keys_list s) \<longrightarrow>
               list_api_keys m s' = json_loads (key_doc_json d')
               \<and> (\<exists>doc. list_api_keys m s' = Inr doc \<and> has_field doc ''_id''))))
   \<and> (remove_api_key m k s = (Inr r, s') \<longrightarrow>
      (\<exists>d'. find (\<lambda>d. key_id d = m) (db_keys s') = Some d'
         \<and> last (api_keys_list s') = api_json m (keys d')
         \<and> json_loads (api_json m (keys d'))
             = Inr (PDict [(''id'', PStr m), (''keys'', PList (map dict_api_key (keys d')))])
         \<and> (single_entry m (api_keys_list s) \<longrightarrow>
               list_api_keys m s' = json_loads (api_json m (keys d'))
               \<and> (\<exists>doc. list_api_keys m s' = Inr doc \<and> \<not> has_field doc ''_id''))))
   \<and> (create_user rnd oid_u oid_k u s = (Inr r, s') \<longrightarrow>
         last (api_keys_list s') = api_json oid_u [valid_key (generate_api_key rnd 20)]
         \<and> json_loads (api_json oid_u [valid_key (generate_api_key rnd 20)])
             = Inr (PDict [(''id'', PStr oid_u),
                           (''keys'', PList [dict_api_key (valid_key (generate_api_key rnd 20))])])
         \<and> (list_all is_doc_entry (api_keys_list s) \<and> count_id oid_u (api_keys_list s) = 0 \<longrightarrow>
               list_api_keys oid_u s'
                 = json_loads (api_json oid_u [valid_key (generate_api_key rnd 20)])
               \<and> (\<exists>doc. list_api_keys oid_u s' = Inr doc \<and> \<not> has_field doc ''_id'')))
   \<and> (list_all is_doc_entry (api_keys_list s) \<and> m' \<noteq> m \<longrightarrow>
         list_api_keys m (snd (create_api_key rnd oid_k m' s)) = list_api_keys m s
         \<and> list_api_keys m (snd (remove_api_key m' k s)) = list_api_keys m s)
   \<and> (list_all is_doc_entry (api_keys_list s) \<and> oid_u \<noteq> m \<longrightarrow>
         list_api_keys m (snd (create_user rnd oid_u oid_k u s)) = list_api_keys m s)
   \<and> (single_entry m (api_keys_list s) \<longrightarrow>
         single_entry m (api_keys_list (snd (create_api_key rnd oid_k m'' s)))
         \<and> single_entry m (api_keys_list (snd (remove_api_key m'' k s))))
   \<and> (single_entry m (api_keys_list s) \<and> (oid_u \<noteq> m \<or> count_id m (api_keys_list s) = 0) \<longrightarrow>
         single_entry m (api_keys_list (snd (create_user rnd oid_u oid_k u s))))"
proof (intro conjI impI)
  assume a: "create_api_key rnd oid_k m s = (Inr r, s')"
  from create_api_key_success [OF a]
  obtain d' es where d': "find (\<lambda>d. key_id d = m) (db_keys s') = Some d'" "key_id d' = m"
    and ro: "remove_old_entry m (api_keys_list s) = Inr es"
    and l: "api_keys_list s' = es @ [key_doc_json d']"
    by blast
  have jl: "json_loads (key_doc_json d')
             = Inr (PDict [(''_id'', PStr (key_oid d')), (''id'', PStr m),
                           (''keys'', PList (map dict_api_key (keys d')))])"
    using d'(2) by (simp add: loads_key_doc_json)
  have la: "last (api_keys_list s') = key_doc_json d'"
    using l by simp
  have "list_api_keys m s' = json_loads (key_doc_json d')
          \<and> (\<exists>doc. list_api_keys m s' = Inr doc \<and> has_field doc ''_id'')"
    if se: "single_entry m (api_keys_list s)"
  proof -
    have "list_api_keys m s' = json_loads (key_doc_json d')"
      using d'(2) by (intro list_api_keys_single(1) [OF se ro l]) simp_all
    with jl show ?thesis by simp
  qed
  with d'(1) la jl
  show "\<exists>d'. find (\<lambda>d. key_id d = m) (db_keys s') = Some d'
         \<and> last (api_keys_list s') = key_doc_json d'
         \<and> json_loads (key_doc_json d')
             = Inr (PDict [(''_id'', PStr (key_oid d')), (''id'', PStr m),
                           (''keys'', PList (map dict_api_key (keys d')))])
         \<and> (single_entry m (api_keys_list s) \<longrightarrow>
               list_api_keys m s' = json_loads (key_doc_json d')
               \<and> (\<exists>doc. list_api_keys m s' = Inr doc \<and> has_field doc ''_id''))"
    by blast
next
  assume a: "remove_api_key m k s = (Inr r, s')"
  from remove_api_key_success [OF a]
  obtain d es where d: "find (\<lambda>d. key_id d = m) (db_keys s) = Some d"
    and ro: "remove_old_entry m (api_keys_list s) = Inr es"
    and dk: "db_keys s' = update_one_keys m (filter (\<lambda>x. key x \<noteq> k) (keys d)) (db_keys s)"
    and l: "api_keys_list s' = es @ [api_json m (filter (\<lambda>x. key x \<noteq> k) (keys d))]"
    by blast
  let ?f = "filter (\<lambda>x. key x \<noteq> k) (keys d)"
  let ?d' = "d\<lparr>keys := ?f\<rparr>"
  have fd: "find (\<lambda>d. key_id d = m) (db_keys s') = Some ?d'"
    using find_update_one_keys [OF d] dk by simp
  have jl: "json_loads (api_json m (keys ?d'))
             = Inr (PDict [(''id'', PStr m), (''keys'', PList (map dict_api_key (keys ?d')))])"
    by (rule loads_api_json)
  have la: "last (api_keys_list s') = api_json m (keys ?d')"
    using l by simp
  have "list_api_keys m s' = json_loads (api_json m (keys ?d'))
          \<and> (\<exists>doc. list_api_keys m s' = Inr doc \<and> \<not> has_field doc ''_id'')"
    if se: "single_entry m (api_keys_list s)"
  proof -
    have "list_api_keys m s' = json_loads (api_json m ?f)"
      by (intro list_api_keys_single(1) [OF se ro l]) simp_all
    then show ?thesis by (simp add: loads_api_json)
  qed
  with fd la jl
  show "\<exists>d'. find (\<lambda>d. key_id d = m) (db_keys s') = Some d'
         \<and> last (api_keys_list s') = api_json m (keys d')
         \<and> json_loads (api_json m (keys d'))
             = Inr (PDict [(''id'', PStr m), (''keys'', PList (map dict_api_key (keys d')))])
         \<and> (single_entry m (api_keys_list s) \<longrightarrow>
               list_api_keys m s' = json_loads (api_json m (keys d'))
               \<and> (\<exists>doc. list_api_keys m s' = Inr doc \<and> \<not> has_field doc ''_id''))"
    by blast
next
  assume a: "create_user rnd oid_u oid_k u s = (Inr r, s')"
  show "last (api_keys_list s') = api_json oid_u [valid_key (generate_api_key rnd 20)]"
    by (simp add: create_user_cache_ok [OF a])
  show "json_loads (api_json oid_u [valid_key (generate_api_key rnd 20)])
             = Inr (PDict [(''id'', PStr oid_u),
                           (''keys'', PList [dict_api_key (valid_key (generate_api_key rnd 20))])])"
    by (simp add: loads_api_json)
  {
    assume h: "list_all is_doc_entry (api_keys_list s) \<and> count_id oid_u (api_keys_list s) = 0"
    then have c: "list_all is_doc_entry (api_keys_list s)"
      and z: "count_id oid_u (api_keys_list s) = 0" by simp_all
    show l: "list_api_keys oid_u s'
                 = json_loads (api_json oid_u [valid_key (generate_api_key rnd 20)])"
      using create_user_listed(2) [OF c z a] by (simp add: loads_api_json)
    show "\<exists>doc. list_api_keys oid_u s' = Inr doc \<and> \<not> has_field doc ''_id''"
      unfolding l by (simp add: loads_api_json)
  }
next
  assume "list_all is_doc_entry (api_keys_list s) \<and> m' \<noteq> m"
  then show "list_api_keys m (snd (create_api_key rnd oid_k m' s)) = list_api_keys m s"
    and "list_api_keys m (snd (remove_api_key m' k s)) = list_api_keys m s"
    by (simp_all add: create_api_key_frame remove_api_key_frame)
next
  assume "list_all is_doc_entry (api_keys_list s) \<and> oid_u \<noteq> m"
  then show "list_api_keys m (snd (create_user rnd oid_u oid_k u s)) = list_api_keys m s"
    by (simp add: create_user_frame)
next
  assume se: "single_entry m (api_keys_list s)"
  then show "single_entry m (api_keys_list (snd (create_api_key rnd oid_k m'' s)))"
    by (rule single_entry_create_api_key)
  from se show "single_entry m (api_keys_list (snd (remove_api_key m'' k s)))"
    by (rule single_entry_remove_api_key)
next
  assume "single_entry m (api_keys_list s) \<and> (oid_u \<noteq> m \<or> count_id m (api_keys_list s) = 0)"
  then show "single_entry m (api_keys_list (snd (create_user rnd oid_u oid_k u s)))"
    by (simp add: single_entry_create_user)
qed

theorem list_api_keys_underscore_id_witness:
  "single_entry ''650000000000000000000001'' (api_keys_list
      \<lparr>db_users = [\<lparr>User_id = 1, User_name = ''Ann'', User_company = ''Acme'', User_status = active,
                    user_oid = ''650000000000000000000001''\<rparr>],
       db_keys = [\<lparr>key_oid = ''650000000000000000000002'', key_id = ''650000000000000000000001'',
                   keys = [\<lparr>key = ''k1'', status = ''valid''\<rparr>]\<rparr>],
       users_list = [],
       api_keys_list =
         [''{\"id\": \"650000000000000000000001\", \"keys\": [{\"key\": \"k1\", \"status\": \"valid\"}]}'']\<rparr>)
   \<and> create_api_key (\<lambda>i. 3 * i) ''650000000000000000000003'' ''650000000000000000000001''
      \<lparr>db_users = [\<lparr>User_id = 1, User_name = ''Ann'', User_company = ''Acme'', User_status = active,
                    user_oid = ''650000000000000000000001''\<rparr>],
       db_keys = [\<lparr>key_oid = ''650000000000000000000002'', key_id = ''650000000000000000000001'',
                   keys = [\<lparr>key = ''k1'', status = ''valid''\<rparr>]\<rparr>],
       users_list = [],
       api_keys_list =
         [''{\"id\": \"650000000000000000000001\", \"keys\": [{\"key\": \"k1\", \"status\": \"valid\"}]}'']\<rparr>
     = (Inr (PDict [(''message'', PStr ''New API key created''),
                    (''new_key'', PStr (generate_api_key (\<lambda>i. 3 * i) 20))]),
        snd (create_api_key (\<lambda>i. 3 * i) ''650000000000000000000003'' ''650000000000000000000001''
      \<lparr>db_users = [\<lparr>User_id = 1, User_name = ''Ann'', User_company = ''Acme'', User_status = active,
                    user_oid = ''650000000000000000000001''\<rparr>],
       db_keys = [\<lparr>key_oid = ''650000000000000000000002'', key_id = ''650000000000000000000001'',
                   keys = [\<lparr>key = ''k1'', status = ''valid''\<rparr>]\<rparr>],
       users_list = [],
       api_keys_list =
         [''{\"id\": \"650000000000000000000001\", \"keys\": [{\"key\": \"k1\", \"status\": \"valid\"}]}'']\<rparr>))
   \<and> (\<exists>doc. list_api_keys ''650000000000000000000001''
          (snd (create_api_key (\<lambda>i. 3 * i) ''650000000000000000000003'' ''650000000000000000000001''
      \<lparr>db_users = [\<lparr>User_id = 1, User_name = ''Ann'', User_company = ''Acme'', User_status = active,
                    user_oid = ''650000000000000000000001''\<rparr>],
       db_keys = [\<lparr>key_oid = ''650000000000000000000002'', key_id = ''650000000000000000000001'',
                   keys = [\<lparr>key = ''k1'', status = ''valid''\<rparr>]\<rparr>],
       users_list = [],
       api_keys_list =
         [''{\"id\": \"650000000000000000000001\", \"keys\": [{\"key\": \"k1\", \"status\": \"valid\"}]}'']\<rparr>)) = Inr doc \<and> has_field doc ''_id'')
   \<and> remove_api_key ''650000000000000000000001'' ''k1''
      \<lparr>db_users = [\<lparr>User_id = 1, User_name = ''Ann'', User_company = ''Acme'', User_status = active,
                    user_oid = ''650000000000000000000001''\<rparr>],
       db_keys = [\<lparr>key_oid = ''650000000000000000000002'', key_id = ''650000000000000000000001'',
                   keys = [\<lparr>key = ''k1'', status = ''valid''\<rparr>]\<rparr>],
       users_list = [],
       api_keys_list =
         [''{\"id\": \"650000000000000000000001\", \"keys\": [{\"key\": \"k1\", \"status\": \"valid\"}]}'']\<rparr>
     = (Inr (PDict [(''message'', PStr ''API key removed''), (''removed_key'', PStr ''k1'')]),
        snd (remove_api_key ''650000000000000000000001'' ''k1''
      \<lparr>db_users = [\<lparr>User_id = 1, User_name = ''Ann'', User_company = ''Acme'', User_status = active,
                    user_oid = ''650000000000000000000001''\<rparr>],
       db_keys = [\<lparr>key_oid = ''650000000000000000000002'', key_id = ''650000000000000000000001'',
                   keys = [\<lparr>key = ''k1'', status = ''valid''\<rparr>]\<rparr>],
       users_list = [],
       api_keys_list =
         [''{\"id\": \"650000000000000000000001\", \"keys\": [{\"key\": \"k1\", \"status\": \"valid\"}]}'']\<rparr>))
   \<and> (\<exists>doc. list_api_keys ''650000000000000000000001''
          (snd (remove_api_key ''650000000000000000000001'' ''k1''
      \<lparr>db_users = [\<lparr>User_id = 1, User_name = ''Ann'', User_company = ''Acme'', User_status = active,
                    user_oid = ''650000000000000000000001''\<rparr>],
       db_keys = [\<lparr>key_oid = ''650000000000000000000002'', key_id = ''650000000000000000000001'',
                   keys = [\<lparr>key = ''k1'', status = ''valid''\<rparr>]\<rparr>],
       users_list = [],
       api_keys_list =
         [''{\"id\": \"650000000000000000000001\", \"keys\": [{\"key\": \"k1\", \"status\": \"valid\"}]}'']\<rparr>)) = Inr doc \<and> \<not> has_field doc ''_id'')"
proof -
  let ?S = "\<lparr>db_users = [\<lparr>User_id = 1, User_name = ''Ann'', User_company = ''Acme'', User_status = active,
                    user_oid = ''650000000000000000000001''\<rparr>],
       db_keys = [\<lparr>key_oid = ''650000000000000000000002'', key_id = ''650000000000000000000001'',
                   keys = [\<lparr>key = ''k1'', status = ''valid''\<rparr>]\<rparr>],
       users_list = [],
       api_keys_list =
         [''{\"id\": \"650000000000000000000001\", \"keys\": [{\"key\": \"k1\", \"status\": \"valid\"}]}'']\<rparr>"
  let ?m = "''650000000000000000000001''"
  let ?r1 = "PDict [(''message'', PStr ''New API key created''),
                    (''new_key'', PStr (generate_api_key (\<lambda>i. 3 * i) 20))]"
  let ?r2 = "PDict [(''message'', PStr ''API key removed''), (''removed_key'', PStr ''k1'')]"
  have c: "single_entry ?m (api_keys_list ?S)" by code_simp
  have "fst (create_api_key (\<lambda>i. 3 * i) ''650000000000000000000003'' ?m ?S) = Inr ?r1"
    by code_simp
  then have h1: "create_api_key (\<lambda>i. 3 * i) ''650000000000000000000003'' ?m ?S
      = (Inr ?r1, snd (create_api_key (\<lambda>i. 3 * i) ''650000000000000000000003'' ?m ?S))"
    by (simp add: prod_eq_iff)
  have "fst (remove_api_key ?m ''k1'' ?S) = Inr ?r2"
    by code_simp
  then have h2: "remove_api_key ?m ''k1'' ?S = (Inr ?r2, snd (remove_api_key ?m ''k1'' ?S))"
    by (simp add: prod_eq_iff)
  from list_api_keys_underscore_id
         [where rnd = "\<lambda>i. 3 * i" and oid_k = "''650000000000000000000003''" and m = ?m
            and s = ?S and r = ?r1
            and s' = "snd (create_api_key (\<lambda>i. 3 * i) ''650000000000000000000003'' ?m ?S)"] h1 c
  have c1: "\<exists>doc. list_api_keys ?m (snd (create_api_key (\<lambda>i. 3 * i) ''650000000000000000000003'' ?m ?S))
              = Inr doc \<and> has_field doc ''_id''"
    by blast
  from list_api_keys_underscore_id
         [where m = ?m and s = ?S and r = ?r2 and k = "''k1''"
            and s' = "snd (remove_api_key ?m ''k1'' ?S)"] h2 c
  have c2: "\<exists>doc. list_api_keys ?m (snd (remove_api_key ?m ''k1'' ?S)) = Inr doc \<and> \<not> has_field doc ''_id''"
    by blast
  from c h1 c1 h2 c2 show ?thesis by blast
qed

end
